theory Spec2Isabelle
  imports Main "HOL-Library.Multiset"
begin

section \<open>LinkedIn auto-poster: dedup store, events and feed scanner\<close>

text \<open>
  The development embeds \<^verbatim>\<open>linkedin_auto_poster.py\<close>. Python strings are
  modelled as \<open>string\<close>, a character being a code point below 256; text with
  other code points is outside the model. Everything the program obtains from outside
  (the MD5 digest of \<^verbatim>\<open>hashlib\<close>, the feed parser, the HTML parser, the generation
  backend, the JSON decoder, the browser, the clock) is a parameter of the model. The cache file
  \<^verbatim>\<open>posted_articles.json\<close> is a value of type \<open>posted option\<close>: \<open>None\<close> when the
  file does not exist, otherwise the dictionary it holds. Reading and writing the file and
  appending to the log file are taken to succeed.
\<close>

subsection \<open>Dedup store (source lines 54--85)\<close>

type_synonym exn = string

record publication_record =
  pr_url :: string
  pr_posted_at :: string
  pr_title :: string
  pr_variant_used :: string

type_synonym posted = "string \<rightharpoonup> publication_record"

text \<open>\<^verbatim>\<open>hashlib.md5(url.encode()).hexdigest()\<close>: the digest is the parameter \<open>md5\<close>.\<close>

definition get_article_hash :: "(string \<Rightarrow> string) \<Rightarrow> string \<Rightarrow> string" where
  "get_article_hash md5 url = md5 url"

definition load_posted_articles :: "posted option \<Rightarrow> posted" where
  "load_posted_articles cache =
     (case cache of Some posted \<Rightarrow> posted | None \<Rightarrow> Map.empty)"

text \<open>\<^verbatim>\<open>d.get(key, default)\<close> on a dictionary of strings.\<close>

definition dict_get :: "(string \<rightharpoonup> string) \<Rightarrow> string \<Rightarrow> string \<Rightarrow> string" where
  "dict_get d k dflt = (case d k of Some v \<Rightarrow> v | None \<Rightarrow> dflt)"

definition save_posted_article ::
  "(string \<Rightarrow> string) \<Rightarrow> string \<Rightarrow> string \<Rightarrow> (string \<rightharpoonup> string) \<Rightarrow> posted option \<Rightarrow> posted option"
where
  "save_posted_article md5 now url post_info cache =
     (let posted = load_posted_articles cache;
          article_hash = get_article_hash md5 url
      in Some (posted(article_hash \<mapsto>
           \<lparr>pr_url = url,
            pr_posted_at = now,
            pr_title = dict_get post_info ''title'' '''',
            pr_variant_used = dict_get post_info ''variant_used'' ''''\<rparr>)))"

definition is_already_posted :: "(string \<Rightarrow> string) \<Rightarrow> posted option \<Rightarrow> string \<Rightarrow> bool" where
  "is_already_posted md5 cache url =
     (let posted = load_posted_articles cache;
          article_hash = get_article_hash md5 url
      in posted article_hash \<noteq> None)"

subsection \<open>Events of a run\<close>

text \<open>
  A run's effects on the outside are recorded as a list of events, in program order: the
  lines handed to \<^verbatim>\<open>log\<close>, the request to the feed, the request to the generation
  backend, the calls of the browser driver and the write of the cache file.

  The addresses the driver opens and the elements it looks up are named:
  \<open>Login_page\<close> is \<^verbatim>\<open>https://www.linkedin.com/login\<close>, \<open>Feed_page\<close> is
  \<^verbatim>\<open>https://www.linkedin.com/feed/\<close>; \<open>Username_field\<close> and
  \<open>Password_field\<close> are the elements with these identifiers (lines 306--307),
  \<open>Submit_button\<close> the selector of line 313, \<open>Start_post_button\<close> of line 331,
  \<open>Post_box\<close> of line 344, \<open>Post_button\<close> of line 351, \<open>Comment_box\<close> of
  line 363 and \<open>Comment_button\<close> of line 370.

  A log line is a constructor of \<open>log_msg\<close>, named after its text, with the values
  the line interpolates as arguments (the message of a JSON decoding error is left out).
  By source line: \<open>Fetching_feed\<close> 91, \<open>No_posts_found\<close> 95,
  \<open>Found_new_post\<close> 109, \<open>No_new_posts\<close> 112, \<open>Error_fetching\<close> 116,
  \<open>Generating\<close> 213, \<open>Generated\<close> 245, \<open>Error_parsing_json\<close> 250,
  \<open>Response_text\<close> 251, \<open>Error_calling_api\<close> 254, \<open>Selected\<close> 267,
  \<open>Why\<close> 268, \<open>Selenium_unavailable\<close> 277, \<open>Creds_missing\<close> 281,
  \<open>Starting_post\<close> 285, \<open>Logging_in\<close> 301, \<open>Login_may_have_failed\<close> 319,
  \<open>Logged_in\<close> 322, \<open>Creating_post\<close> 325, \<open>Writing_caption\<close> 337,
  \<open>Publishing_post\<close> 350, \<open>Main_post_published\<close> 355, \<open>Adding_comment\<close> 358,
  \<open>Comment_posted\<close> 374, \<open>Successfully_posted\<close> 375, \<open>Error_posting\<close> 383,
  \<open>Rule_line\<close> 390, 392, 442, 444 and 448, \<open>Starting_line\<close> 391,
  \<open>Rss_url_missing\<close> 396, \<open>Api_key_missing\<close> 400, \<open>Step1\<close> 404,
  \<open>No_action\<close> 408, \<open>Step2\<close> 412, \<open>Failed_generate\<close> 416,
  \<open>Step3\<close> 420, \<open>Failed_select\<close> 424, \<open>Step4\<close> 428,
  \<open>Complete_line\<close> 443, \<open>Blog_line\<close> 445, \<open>Variant_line\<close> 446,
  \<open>Score_line\<close> 447, \<open>Posting_failed_retry\<close> 450.
\<close>

datatype page = Login_page | Feed_page

datatype element =
    Username_field | Password_field | Submit_button | Start_post_button
  | Post_box | Post_button | Comment_box | Comment_button

datatype action =
    Start_chrome
  | Implicitly_wait
  | Get page
  | Find element
  | Wait_clickable element
  | Wait_present element
  | Send_keys element string
  | Click element
  | Read_url
  | Quit

datatype log_msg =
    Rule_line | Starting_line
  | Rss_url_missing | Api_key_missing
  | Step1 | No_action | Step2 | Failed_generate | Step3 | Failed_select | Step4
  | Complete_line | Blog_line string | Variant_line string | Score_line int
  | Posting_failed_retry
  | Fetching_feed | No_posts_found | Found_new_post string | No_new_posts
  | Error_fetching exn
  | Generating | Generated nat | Error_parsing_json | Response_text string
  | Error_calling_api exn
  | Selected string int | Why string
  | Selenium_unavailable | Creds_missing | Starting_post | Logging_in
  | Login_may_have_failed | Logged_in | Creating_post | Writing_caption
  | Publishing_post | Main_post_published | Adding_comment | Comment_posted
  | Successfully_posted | Error_posting exn

datatype event =
    Log log_msg
  | Net_feed string
  | Net_generate
  | Browser action
  | Store_write string publication_record

subsection \<open>Feed scanner (source lines 88--117)\<close>

text \<open>
  A feed entry as \<^verbatim>\<open>feedparser\<close> delivers it: every key may be missing, and
  \<^verbatim>\<open>content\<close>, when present, is a list of dictionaries whose \<^verbatim>\<open>value\<close> key may
  be missing.
\<close>

record entry =
  e_link :: "string option"
  e_title :: "string option"
  e_published :: "string option"
  e_summary :: "string option"
  e_content :: "string option list option"

record post_data =
  pd_title :: string
  pd_link :: string
  pd_published :: string
  pd_summary :: string
  pd_content :: string

datatype feed_result = Feed_raises exn | Feed "entry list"

text \<open>
  The exceptions that the program's own statements raise, and \<open>Library_error\<close> for an
  exception raised inside a library call, with its message.
\<close>

datatype py_error =
    KeyError string
  | IndexError
  | AttributeError string
  | UnboundLocalError string
  | Library_error exn

definition get_or :: "'a option \<Rightarrow> 'a \<Rightarrow> 'a" where
  "get_or v dflt = (case v of Some x \<Rightarrow> x | None \<Rightarrow> dflt)"

text \<open>
  Lines 102--108. \<^verbatim>\<open>entry.get('content', [{}])[0].get('value', entry.get('summary', ''))\<close>
  raises IndexError on an empty content list.
\<close>

definition make_post_data :: "entry \<Rightarrow> string \<Rightarrow> py_error + post_data" where
  "make_post_data e url =
     (case get_or (e_content e) [None] of
        [] \<Rightarrow> Inl IndexError
      | c # _ \<Rightarrow>
          Inr \<lparr>pd_title = get_or (e_title e) ''Untitled'',
               pd_link = url,
               pd_published = get_or (e_published e) '''',
               pd_summary = get_or (e_summary e) '''',
               pd_content = get_or c (get_or (e_summary e) '''')\<rparr>)"

text \<open>The \<^verbatim>\<open>for\<close> loop of lines 99--113; an exception leaves the loop.\<close>

fun scan_entries ::
  "(string \<Rightarrow> string) \<Rightarrow> posted option \<Rightarrow> entry list \<Rightarrow> event list \<times> (py_error + post_data option)"
where
  "scan_entries md5 cache [] = ([Log No_new_posts], Inr None)"
| "scan_entries md5 cache (e # es) =
     (let url = get_or (e_link e) ''''
      in if \<not> is_already_posted md5 cache url then
           (case make_post_data e url of
              Inl err \<Rightarrow> ([], Inl err)
            | Inr p \<Rightarrow> ([Log (Found_new_post (pd_title p))], Inr (Some p)))
         else scan_entries md5 cache es)"

definition show_error :: "py_error \<Rightarrow> exn" where
  "show_error err =
     (case err of
        KeyError k \<Rightarrow> ''KeyError: '' @ k
      | IndexError \<Rightarrow> ''list index out of range''
      | AttributeError a \<Rightarrow> ''object has no attribute '' @ a
      | UnboundLocalError n \<Rightarrow> ''local variable referenced before assignment: '' @ n
      | Library_error ex \<Rightarrow> ex)"

definition fetch_latest_blog_post ::
  "(string \<Rightarrow> string) \<Rightarrow> (string \<Rightarrow> feed_result) \<Rightarrow> posted option \<Rightarrow> string
     \<Rightarrow> event list \<times> post_data option"
where
  "fetch_latest_blog_post md5 parse_feed cache rss_url =
     (case parse_feed rss_url of
        Feed_raises ex \<Rightarrow>
          ([Log Fetching_feed, Net_feed rss_url, Log (Error_fetching ex)], None)
      | Feed entries \<Rightarrow>
          if entries = [] then
            ([Log Fetching_feed, Net_feed rss_url, Log No_posts_found], None)
          else
            (case scan_entries md5 cache entries of
               (evs, Inl err) \<Rightarrow>
                 ([Log Fetching_feed, Net_feed rss_url] @ evs
                    @ [Log (Error_fetching (show_error err))], None)
             | (evs, Inr found) \<Rightarrow>
                 ([Log Fetching_feed, Net_feed rss_url] @ evs, found)))"

section \<open>Caption generator (source lines 143--255)\<close>

subsection \<open>String operations of the Python library\<close>

fun starts_with :: "string \<Rightarrow> string \<Rightarrow> bool" where
  "starts_with [] s = True"
| "starts_with (p # ps) [] = False"
| "starts_with (p # ps) (c # cs) = (p = c \<and> starts_with ps cs)"

text \<open>\<^verbatim>\<open>sub in s\<close> on strings.\<close>

fun contains :: "string \<Rightarrow> string \<Rightarrow> bool" where
  "contains sub [] = (sub = [])"
| "contains sub (c # cs) = (starts_with sub (c # cs) \<or> contains sub cs)"

text \<open>
  \<^verbatim>\<open>s.replace(old, new)\<close>: the occurrences of \<open>old\<close> are replaced from the left,
  without overlap; an empty \<open>old\<close> matches before every character and at the end.
\<close>

function replace :: "string \<Rightarrow> string \<Rightarrow> string \<Rightarrow> string" where
  "replace [] new s = new @ concat (map (\<lambda>c. c # new) s)"
| "replace (p # ps) new [] = []"
| "replace (p # ps) new (c # cs) =
     (if starts_with (p # ps) (c # cs)
      then new @ replace (p # ps) new (drop (length ps) cs)
      else c # replace (p # ps) new cs)"
  by pat_completeness auto
termination
  by (relation "measure (\<lambda>(old, new, s). length s)") auto

text \<open>
  The characters \<^verbatim>\<open>str.strip()\<close> removes, among the code points below 256: tab,
  line feed, vertical tab, form feed, carriage return, the four separators 0x1C--0x1F, the
  space, the next-line character 0x85 and the no-break space 0xA0.
\<close>

definition is_space :: "char \<Rightarrow> bool" where
  "is_space c = (c \<in> set [CHR 0x09, CHR 0x0A, CHR 0x0B, CHR 0x0C, CHR 0x0D,
                            CHR 0x1C, CHR 0x1D, CHR 0x1E, CHR 0x1F, CHR 0x20,
                            CHR 0x85, CHR 0xA0])"

definition strip :: "string \<Rightarrow> string" where
  "strip s = rev (dropWhile is_space (rev (dropWhile is_space s)))"

text \<open>\<^verbatim>\<open>sep.join(parts)\<close>.\<close>

fun join :: "string \<Rightarrow> string list \<Rightarrow> string" where
  "join sep [] = []"
| "join sep [x] = x"
| "join sep (x # y # ys) = x @ sep @ join sep (y # ys)"

subsection \<open>Variants and the backend's answer\<close>

text \<open>
  A variant is one dictionary of the list under \<^verbatim>\<open>variants\<close> in the backend's answer.
  Each key may be missing; a key that is present has the type of the prompt's output format
  (lines 174--198): strings, a list of strings for the hashtags and an integer score.
  Answers whose values have other types are outside the model.
\<close>

record variant =
  v_type :: "string option"
  v_caption :: "string option"
  v_hashtags :: "string list option"
  v_engagement_score :: "int option"
  v_why_it_works :: "string option"

text \<open>
  Line 146 runs before the \<^verbatim>\<open>try\<close>: \<^verbatim>\<open>clean_html\<close> feeds the content to
  the HTML parser of the library, which is an oracle here. It returns the stripped text or
  raises, and an exception of it leaves \<^verbatim>\<open>generate_linkedin_variants\<close> uncaught.
  The prompt (lines 148--210) is built from the title, the first 3000 characters of the
  stripped text and the link; the backend is an oracle on these three.
\<close>

record prompt =
  prompt_title :: string
  prompt_content :: string
  prompt_link :: string

text \<open>
  The outcome of lines 215--237, the request and the path to the answer's text:
  \<^item> \<open>Api_raises\<close>: an exception that the handler of line 253 catches (transport, HTTP
    status, a missing key on the path to the text, a text that is not a string);
  \<^item> \<open>Api_body_undecodable\<close>: \<^verbatim>\<open>response.json()\<close> of line 234 raises a
    JSONDecodeError. The handler of line 249 catches it, logs line 250, and line 251 then
    reads \<^verbatim>\<open>generated_text\<close>, which is not yet assigned: UnboundLocalError is raised
    inside the handler and leaves the function;
  \<^item> \<open>Api_text\<close>: the text of the answer.
\<close>

datatype api_response = Api_raises exn | Api_body_undecodable | Api_text string

text \<open>
  The value under \<^verbatim>\<open>variants\<close> when it has a length: a list of dictionaries
  (\<open>Objects\<close>), or any other value with a length, that is a string, a dictionary or a
  list with a member that is not a dictionary (\<open>Other_value\<close>, of which the length is
  kept).
\<close>

datatype variants_value = Objects "variant list" | Other_value nat

fun len :: "variants_value \<Rightarrow> nat" where
  "len (Objects variants) = length variants"
| "len (Other_value n) = n"

text \<open>
  What lines 243--245 make of a text that \<^verbatim>\<open>json.loads\<close> decodes:
  \<open>Without_variants\<close> when \<^verbatim>\<open>variants_data['variants']\<close> or its \<^verbatim>\<open>len\<close>
  raises (the document is not a dictionary, it has no such key, the value has no length;
  any other exception of these lines is counted here too), and \<open>With_variants\<close> with the
  value otherwise. The decoder itself is a parameter; \<open>None\<close> is its JSONDecodeError.
\<close>

datatype json_doc = Without_variants exn | With_variants variants_value

text \<open>The code-fence marker of Markdown: three grave accents (character 0x60).\<close>

definition fence :: string where
  "fence = [CHR 0x60, CHR 0x60, CHR 0x60]"

text \<open>Line 240: both markers are removed wherever they occur, then the text is stripped.\<close>

definition strip_fences :: "string \<Rightarrow> string" where
  "strip_fences generated_text =
     strip (replace fence '''' (replace (fence @ ''json'') '''' generated_text))"

definition make_prompt :: "post_data \<Rightarrow> string \<Rightarrow> prompt" where
  "make_prompt blog_post clean_content =
     \<lparr>prompt_title = pd_title blog_post,
      prompt_content = take 3000 clean_content,
      prompt_link = pd_link blog_post\<rparr>"

definition generate_linkedin_variants ::
  "(string \<Rightarrow> exn + string) \<Rightarrow> (prompt \<Rightarrow> api_response) \<Rightarrow> (string \<Rightarrow> json_doc option)
     \<Rightarrow> post_data \<Rightarrow> event list \<times> (py_error + variants_value option)"
where
  "generate_linkedin_variants clean_html backend json_loads blog_post =
     (case clean_html (pd_content blog_post) of
        Inl ex \<Rightarrow> ([], Inl (Library_error ex))
      | Inr clean_content \<Rightarrow>
     (case backend (make_prompt blog_post clean_content) of
        Api_raises ex \<Rightarrow>
          ([Log Generating, Net_generate, Log (Error_calling_api ex)], Inr None)
      | Api_body_undecodable \<Rightarrow>
          ([Log Generating, Net_generate, Log Error_parsing_json],
           Inl (UnboundLocalError ''generated_text''))
      | Api_text text \<Rightarrow>
          (let generated_text = strip_fences text
           in case json_loads generated_text of
                None \<Rightarrow>
                  ([Log Generating, Net_generate, Log Error_parsing_json,
                    Log (Response_text (take 200 generated_text))], Inr None)
              | Some (Without_variants ex) \<Rightarrow>
                  ([Log Generating, Net_generate, Log (Error_calling_api ex)], Inr None)
              | Some (With_variants variants) \<Rightarrow>
                  ([Log Generating, Net_generate, Log (Generated (len variants))],
                   Inr (Some variants)))))"

section \<open>Variant selector (source lines 258--270)\<close>

text \<open>
  \<^verbatim>\<open>sorted(xs, key=k, reverse=True)\<close> on integer keys: a stable sort into descending
  order. The model inserts each element in front of the sorted rest, before the first
  element whose key is not larger, so that equal keys keep the order of the input.
\<close>

fun insert_desc :: "('a \<Rightarrow> int) \<Rightarrow> 'a \<Rightarrow> 'a list \<Rightarrow> 'a list" where
  "insert_desc k x [] = [x]"
| "insert_desc k x (y # ys) =
     (if k y \<le> k x then x # y # ys else y # insert_desc k x ys)"

fun sorted_reverse :: "('a \<Rightarrow> int) \<Rightarrow> 'a list \<Rightarrow> 'a list" where
  "sorted_reverse k [] = []"
| "sorted_reverse k (x # xs) = insert_desc k x (sorted_reverse k xs)"

text \<open>The sort key of line 264, \<^verbatim>\<open>x.get('engagement_score', 0)\<close>.\<close>

definition score_key :: "variant \<Rightarrow> int" where
  "score_key x = get_or (v_engagement_score x) 0"

text \<open>
  Lines 266--270: the two log lines read \<^verbatim>\<open>best['type']\<close>,
  \<^verbatim>\<open>best['engagement_score']\<close> and \<^verbatim>\<open>best['why_it_works']\<close>, each of which raises
  KeyError when the key is missing.
\<close>

definition select_best_variant :: "variant list \<Rightarrow> event list \<times> (py_error + variant option)" where
  "select_best_variant variants =
     (if variants = [] then ([], Inr None)
      else
        (case sorted_reverse score_key variants of
           [] \<Rightarrow> ([], Inl IndexError)
         | best # _ \<Rightarrow>
             (case v_type best of
                None \<Rightarrow> ([], Inl (KeyError ''type''))
              | Some ty \<Rightarrow>
                  (case v_engagement_score best of
                     None \<Rightarrow> ([], Inl (KeyError ''engagement_score''))
                   | Some score \<Rightarrow>
                       (case v_why_it_works best of
                          None \<Rightarrow> ([Log (Selected ty score)], Inl (KeyError ''why_it_works''))
                        | Some why \<Rightarrow>
                            ([Log (Selected ty score), Log (Why why)], Inr (Some best)))))))"

text \<open>
  The same function on a value under \<^verbatim>\<open>variants\<close> that is not a list of
  dictionaries: line 260 returns nothing on an empty value, and on any other the key
  function of line 264 raises AttributeError at the first member without the method
  \<^verbatim>\<open>get\<close> (a character of a string, a key of a dictionary, a member of a list).
\<close>

fun select_best_variant_value ::
  "variants_value \<Rightarrow> event list \<times> (py_error + variant option)"
where
  "select_best_variant_value (Objects variants) = select_best_variant variants"
| "select_best_variant_value (Other_value n) =
     (if n = 0 then ([], Inr None) else ([], Inl (AttributeError ''get'')))"

text \<open>The test \<^verbatim>\<open>not variants\<close> of line 415: nothing, or a value of length 0.\<close>

fun is_falsy :: "variants_value option \<Rightarrow> bool" where
  "is_falsy None = True"
| "is_falsy (Some value) = (len value = 0)"

section \<open>Publish driver (source lines 273--384)\<close>

text \<open>Line 340: the caption, a blank line, the hashtags as \<^verbatim>\<open>#tag\<close> joined by spaces.\<close>

definition full_caption :: "string \<Rightarrow> string list \<Rightarrow> string" where
  "full_caption caption hashtags =
     caption @ [CHR 0x0A, CHR 0x0A] @ join '' '' (map (\<lambda>tag. ''#'' @ tag) hashtags)"

text \<open>
  The browser is an oracle: for each call of the driver, whether it raises (and with which
  message), and the address it reports after the login form was submitted.
\<close>

record browser =
  raises :: "action \<Rightarrow> exn option"
  current_url :: string

text \<open>
  The module-level settings of lines 18--21, each the empty string when the environment
  variable is absent, and the flag of lines 29--39.
\<close>

record config =
  rss_url :: string
  api_key :: string
  linkedin_email :: string
  linkedin_password :: string
  selenium_available :: bool

text \<open>
  The body of the inner \<^verbatim>\<open>try\<close> (lines 300--377) is a script, run step by step:
  \<open>Act\<close> is a call of the driver, \<open>Say\<close> a log line, \<open>Check_login\<close> the test of
  lines 318--320 (the address is read once, as the call \<open>Read_url\<close>) and
  \<open>Return\<close> a \<^verbatim>\<open>return\<close> statement. The pauses (\<^verbatim>\<open>time.sleep\<close>) are
  left out. A call that raises is recorded as an event before the script stops.
\<close>

datatype step = Act action | Say log_msg | Check_login | Return bool

datatype exit = Returned bool | Raised exn

fun run_script :: "browser \<Rightarrow> step list \<Rightarrow> event list \<times> exit option" where
  "run_script b [] = ([], None)"
| "run_script b (Act a # ss) =
     (case raises b a of
        Some ex \<Rightarrow> ([Browser a], Some (Raised ex))
      | None \<Rightarrow> (let (evs, r) = run_script b ss in (Browser a # evs, r)))"
| "run_script b (Say m # ss) =
     (let (evs, r) = run_script b ss in (Log m # evs, r))"
| "run_script b (Check_login # ss) =
     (case raises b Read_url of
        Some ex \<Rightarrow> ([Browser Read_url], Some (Raised ex))
      | None \<Rightarrow>
          if \<not> contains ''feed'' (current_url b) \<and> \<not> contains ''checkpoint'' (current_url b)
          then ([Browser Read_url, Log Login_may_have_failed], Some (Returned False))
          else (let (evs, r) = run_script b ss in (Browser Read_url # evs, r)))"
| "run_script b (Return v # ss) = ([], Some (Returned v))"

definition login_steps :: "config \<Rightarrow> step list" where
  "login_steps cfg =
     [Say Logging_in,
      Act (Get Login_page),
      Act (Find Username_field),
      Act (Find Password_field),
      Act (Send_keys Username_field (linkedin_email cfg)),
      Act (Send_keys Password_field (linkedin_password cfg)),
      Act (Find Submit_button),
      Act (Click Submit_button),
      Check_login,
      Say Logged_in]"

definition compose_steps :: "string \<Rightarrow> string list \<Rightarrow> step list" where
  "compose_steps caption hashtags =
     [Say Creating_post,
      Act (Get Feed_page),
      Act (Wait_clickable Start_post_button),
      Act (Click Start_post_button),
      Say Writing_caption,
      Act (Wait_present Post_box),
      Act (Send_keys Post_box (full_caption caption hashtags)),
      Say Publishing_post,
      Act (Find Post_button),
      Act (Click Post_button),
      Say Main_post_published]"

definition comment_steps :: "string \<Rightarrow> step list" where
  "comment_steps blog_url =
     [Say Adding_comment,
      Act (Wait_present Comment_box),
      Act (Click Comment_box),
      Act (Send_keys Comment_box (''Read the full post: '' @ blog_url)),
      Act (Find Comment_button),
      Act (Click Comment_button),
      Say Comment_posted,
      Say Successfully_posted,
      Return True]"

text \<open>
  The \<^verbatim>\<open>finally\<close> clause of lines 379--380: the driver is quit on every exit of the
  body, and an exception of \<^verbatim>\<open>driver.quit()\<close> replaces the body's exit.
\<close>

definition finally_quit :: "browser \<Rightarrow> event list \<times> exit option \<Rightarrow> event list \<times> exit option" where
  "finally_quit b body =
     (case raises b Quit of
        Some ex \<Rightarrow> (fst body @ [Browser Quit], Some (Raised ex))
      | None \<Rightarrow> (fst body @ [Browser Quit], snd body))"

definition post_to_linkedin ::
  "config \<Rightarrow> browser \<Rightarrow> string \<Rightarrow> string list \<Rightarrow> string \<Rightarrow> event list \<times> bool"
where
  "post_to_linkedin cfg b caption hashtags blog_url =
     (if \<not> selenium_available cfg then ([Log Selenium_unavailable], False)
      else if linkedin_email cfg = [] \<or> linkedin_password cfg = [] then
        ([Log Creds_missing], False)
      else
        (case run_script b [Say Starting_post, Act Start_chrome, Act Implicitly_wait] of
           (evs0, Some (Raised ex)) \<Rightarrow> (evs0 @ [Log (Error_posting ex)], False)
         | (evs0, Some (Returned v)) \<Rightarrow> (evs0, v)
         | (evs0, None) \<Rightarrow>
             (case finally_quit b
                     (run_script b
                        (login_steps cfg @ compose_steps caption hashtags
                           @ comment_steps blog_url)) of
                (evs, Some (Raised ex)) \<Rightarrow> (evs0 @ evs @ [Log (Error_posting ex)], False)
              | (evs, Some (Returned v)) \<Rightarrow> (evs0 @ evs, v)
              | (evs, None) \<Rightarrow> (evs0 @ evs, False))))"

section \<open>Run orchestrator (source lines 387--450)\<close>

record world =
  md5 :: "string \<Rightarrow> string"
  parse_feed :: "string \<Rightarrow> feed_result"
  clean_html :: "string \<Rightarrow> exn + string"
  backend :: "prompt \<Rightarrow> api_response"
  json_loads :: "string \<Rightarrow> json_doc option"
  chrome :: browser
  now :: string

text \<open>
  \<^verbatim>\<open>main\<close> returns nothing; the model labels each of its exits with the text of the
  log line that precedes it, together with the values of \<^verbatim>\<open>blog_post\<close> and
  \<^verbatim>\<open>best_variant\<close> at that point. \<open>Uncaught\<close> is an exception that leaves
  \<^verbatim>\<open>main\<close>.
\<close>

datatype outcome =
    Rss_url_not_configured
  | Api_key_not_configured
  | No_action_needed
  | Failed_to_generate post_data
  | Failed_to_select post_data
  | Automation_complete post_data variant
  | Posting_failed post_data variant
  | Uncaught post_data py_error

record run_result =
  events :: "event list"
  cache_file :: "posted option"
  outcome :: outcome

definition after :: "event list \<Rightarrow> run_result \<Rightarrow> run_result" where
  "after evs r = r\<lparr>events := evs @ events r\<rparr>"

text \<open>Lines 427--450: step 4, the post, and step 5, the write to the cache.\<close>

definition post_and_save :: "config \<Rightarrow> world \<Rightarrow> posted option \<Rightarrow> post_data \<Rightarrow> variant \<Rightarrow> run_result" where
  "post_and_save cfg w cache blog_post best_variant =
     (case v_caption best_variant of
        None \<Rightarrow>
          \<lparr>events = [Log Step4], cache_file = cache,
           outcome = Uncaught blog_post (KeyError ''caption'')\<rparr>
      | Some caption \<Rightarrow>
     (case v_hashtags best_variant of
        None \<Rightarrow>
          \<lparr>events = [Log Step4], cache_file = cache,
           outcome = Uncaught blog_post (KeyError ''hashtags'')\<rparr>
      | Some hashtags \<Rightarrow>
     (case post_to_linkedin cfg (chrome w) caption hashtags (pd_link blog_post) of
        (evs, success) \<Rightarrow>
          if success then
            (case v_type best_variant of
               None \<Rightarrow>
                 \<lparr>events = Log Step4 # evs, cache_file = cache,
                  outcome = Uncaught blog_post (KeyError ''type'')\<rparr>
             | Some ty \<Rightarrow>
                 (let post_info = [''title'' \<mapsto> pd_title blog_post, ''variant_used'' \<mapsto> ty];
                      saved = save_posted_article (md5 w) (now w) (pd_link blog_post) post_info cache;
                      written =
                        Store_write (get_article_hash (md5 w) (pd_link blog_post))
                          \<lparr>pr_url = pd_link blog_post, pr_posted_at = now w,
                           pr_title = pd_title blog_post, pr_variant_used = ty\<rparr>
                  in case v_engagement_score best_variant of
                       None \<Rightarrow>
                         \<lparr>events = Log Step4 # evs @
                            [written, Log Rule_line, Log Complete_line, Log Rule_line,
                             Log (Blog_line (pd_title blog_post)), Log (Variant_line ty)],
                          cache_file = saved,
                          outcome = Uncaught blog_post (KeyError ''engagement_score'')\<rparr>
                     | Some score \<Rightarrow>
                         \<lparr>events = Log Step4 # evs @
                            [written, Log Rule_line, Log Complete_line, Log Rule_line,
                             Log (Blog_line (pd_title blog_post)), Log (Variant_line ty),
                             Log (Score_line score), Log Rule_line],
                          cache_file = saved,
                          outcome = Automation_complete blog_post best_variant\<rparr>))
          else
            \<lparr>events = Log Step4 # evs @ [Log Posting_failed_retry], cache_file = cache,
             outcome = Posting_failed blog_post best_variant\<rparr>)))"

definition main :: "config \<Rightarrow> world \<Rightarrow> posted option \<Rightarrow> run_result" where
  "main cfg w cache =
     after [Log Rule_line, Log Starting_line, Log Rule_line]
     (if rss_url cfg = [] then
        \<lparr>events = [Log Rss_url_missing], cache_file = cache, outcome = Rss_url_not_configured\<rparr>
      else if api_key cfg = [] then
        \<lparr>events = [Log Api_key_missing], cache_file = cache, outcome = Api_key_not_configured\<rparr>
      else
        (case fetch_latest_blog_post (md5 w) (parse_feed w) cache (rss_url cfg) of
           (evs1, None) \<Rightarrow>
             \<lparr>events = Log Step1 # evs1 @ [Log No_action], cache_file = cache,
              outcome = No_action_needed\<rparr>
         | (evs1, Some blog_post) \<Rightarrow>
             after (Log Step1 # evs1)
             (case generate_linkedin_variants (clean_html w) (backend w) (json_loads w)
                     blog_post of
                (evs2, Inl err) \<Rightarrow>
                  \<lparr>events = Log Step2 # evs2, cache_file = cache,
                   outcome = Uncaught blog_post err\<rparr>
              | (evs2, Inr generated) \<Rightarrow>
                  if is_falsy generated then
                    \<lparr>events = Log Step2 # evs2 @ [Log Failed_generate], cache_file = cache,
                     outcome = Failed_to_generate blog_post\<rparr>
                  else
                    after (Log Step2 # evs2)
                    (case select_best_variant_value (get_or generated (Objects [])) of
                       (evs3, Inl err) \<Rightarrow>
                         \<lparr>events = Log Step3 # evs3, cache_file = cache,
                          outcome = Uncaught blog_post err\<rparr>
                     | (evs3, Inr None) \<Rightarrow>
                         \<lparr>events = Log Step3 # evs3 @ [Log Failed_select], cache_file = cache,
                          outcome = Failed_to_select blog_post\<rparr>
                     | (evs3, Inr (Some best_variant)) \<Rightarrow>
                         after (Log Step3 # evs3)
                           (post_and_save cfg w cache blog_post best_variant)))))"

section \<open>Notions used in the statements\<close>

text \<open>
  The specification's wording of the caption format (section 4.5, transition 3): the
  hashtags rendered as \<^verbatim>\<open>#tag\<close> tokens separated by single spaces, placed after the
  caption and a blank line. It is compared with \<open>full_caption\<close>, the code's rendering.
\<close>

fun hashtag_tokens :: "string list \<Rightarrow> string" where
  "hashtag_tokens [] = []"
| "hashtag_tokens [t] = CHR ''#'' # t"
| "hashtag_tokens (t # ts) = CHR ''#'' # t @ CHR '' '' # hashtag_tokens ts"

definition rendered_payload :: "string \<Rightarrow> string list \<Rightarrow> string" where
  "rendered_payload caption hashtags =
     caption @ [CHR 0x0A] @ [CHR 0x0A] @ hashtag_tokens hashtags"

text \<open>A variant with the score 0 filled in where the key is missing.\<close>

definition default_score :: "variant \<Rightarrow> variant" where
  "default_score v =
     (case v_engagement_score v of None \<Rightarrow> v\<lparr>v_engagement_score := Some 0\<rparr> | Some s \<Rightarrow> v)"

text \<open>The kinds of events.\<close>

fun is_log :: "event \<Rightarrow> bool" where
  "is_log (Log m) = True"
| "is_log e = False"

fun is_browser :: "event \<Rightarrow> bool" where
  "is_browser (Browser a) = True"
| "is_browser e = False"

fun is_store_write :: "event \<Rightarrow> bool" where
  "is_store_write (Store_write fp r) = True"
| "is_store_write e = False"

fun is_network_call :: "event \<Rightarrow> bool" where
  "is_network_call (Net_feed url) = True"
| "is_network_call Net_generate = True"
| "is_network_call (Browser a) = True"
| "is_network_call e = False"

fun is_return :: "step \<Rightarrow> bool" where
  "is_return (Return v) = True"
| "is_return s = False"

text \<open>
  The path condition of lines 394--425 of \<^verbatim>\<open>main\<close>: both settings are present, the
  feed scanner found \<open>p\<close>, the generator returned a non-empty list of dictionaries
  and the selector returned \<open>v\<close>, so that the run arrives at step 4 with \<^verbatim>\<open>blog_post = p\<close> and
  \<^verbatim>\<open>best_variant = v\<close>.
\<close>

definition reaches_step4 :: "config \<Rightarrow> world \<Rightarrow> posted option \<Rightarrow> post_data \<Rightarrow> variant \<Rightarrow> bool" where
  "reaches_step4 cfg w cache p v \<longleftrightarrow>
     rss_url cfg \<noteq> [] \<and> api_key cfg \<noteq> []
     \<and> snd (fetch_latest_blog_post (md5 w) (parse_feed w) cache (rss_url cfg)) = Some p
     \<and> (\<exists>vs. snd (generate_linkedin_variants (clean_html w) (backend w) (json_loads w) p)
                 = Inr (Some (Objects vs))
            \<and> vs \<noteq> [] \<and> snd (select_best_variant vs) = Inr (Some v))"

subsection \<open>Concrete inputs\<close>

text \<open>
  The inputs at which the theorems are instantiated. In \<open>example_world\<close> the digest is
  replaced by the identity, the feed holds the given entries, the HTML parser returns the
  content as it is, the decoder returns the given variants for the backend's text, and the browser raises a timeout at exactly the listed
  calls.
\<close>

definition example_variant :: "string \<Rightarrow> int option \<Rightarrow> variant" where
  "example_variant tag score =
     \<lparr>v_type = Some tag, v_caption = Some ''Hello'', v_hashtags = Some [''AI'', ''Leadership''],
      v_engagement_score = score, v_why_it_works = Some ''hook''\<rparr>"

definition example_config :: config where
  "example_config =
     \<lparr>rss_url = ''https://blog.example/rss'', api_key = ''key'',
      linkedin_email = ''me@example.org'', linkedin_password = ''secret'',
      selenium_available = True\<rparr>"

definition example_browser :: "action list \<Rightarrow> browser" where
  "example_browser failing =
     \<lparr>raises = (\<lambda>a. if a \<in> set failing then Some ''timeout'' else None),
      current_url = ''https://www.linkedin.com/feed/''\<rparr>"

definition example_entry :: "string \<Rightarrow> entry" where
  "example_entry url =
     \<lparr>e_link = Some url, e_title = Some ''Post'', e_published = Some ''2025-01-06'',
      e_summary = Some ''Summary'', e_content = Some [Some ''Body'']\<rparr>"

definition example_post :: "string \<Rightarrow> post_data" where
  "example_post url =
     \<lparr>pd_title = ''Post'', pd_link = url, pd_published = ''2025-01-06'',
      pd_summary = ''Summary'', pd_content = ''Body''\<rparr>"

definition example_world :: "entry list \<Rightarrow> variant list \<Rightarrow> action list \<Rightarrow> world" where
  "example_world es vs failing =
     \<lparr>md5 = (\<lambda>u. u), parse_feed = (\<lambda>u. Feed es), clean_html = (\<lambda>c. Inr c),
      backend = (\<lambda>p. Api_text ''answer''),
      json_loads = (\<lambda>t. Some (With_variants (Objects vs))), chrome = example_browser failing,
      now = ''2025-01-06T09:00:00''\<rparr>"

section \<open>Caption format\<close>

lemma join_hashtags: "join '' '' (map (\<lambda>tag. CHR ''#'' # tag) hs) = hashtag_tokens hs"
  by (induction hs rule: hashtag_tokens.induct) simp_all

lemma browser_events_of_script:
  "Browser a \<in> set (fst (run_script b ss)) \<Longrightarrow> Act a \<in> set ss \<or> a = Read_url"
  by (induction b ss rule: run_script.induct) (auto split: option.splits prod.splits if_splits)

lemma post_box_text:
  assumes "Browser (Send_keys Post_box t) \<in> set (fst (post_to_linkedin cfg b caption hashtags url))"
  shows "t = full_caption caption hashtags"
proof -
  let ?s = "login_steps cfg @ compose_steps caption hashtags @ comment_steps url"
  from assms have "Browser (Send_keys Post_box t) \<in> set (fst (run_script b ?s))"
    by (auto simp: post_to_linkedin_def finally_quit_def split: if_splits option.splits exit.splits prod.splits)
  then have "Act (Send_keys Post_box t) \<in> set ?s"
    using browser_events_of_script by blast
  then show ?thesis
    by (auto simp: login_steps_def compose_steps_def comment_steps_def)
qed

text \<open>
  Claim C8. For every caption and every list of hashtags, the text the publish driver types
  into the composer is the caption, a blank line, and the hashtags each prefixed with
  \<^verbatim>\<open>#\<close> and joined by single spaces: the code's rendering equals the
  specification's, any text sent to the composer box during a run of the driver is that
  rendering, and the caption Hello with the hashtags AI and Leadership renders as Hello,
  two line feeds, and \<^verbatim>\<open>#AI #Leadership\<close>.
\<close>

theorem full_caption_format:
  "full_caption caption hashtags = rendered_payload caption hashtags
   \<and> full_caption ''Hello'' [''AI'', ''Leadership'']
         = ''Hello'' @ [CHR 0x0A, CHR 0x0A] @ ''#AI #Leadership''
   \<and> (Browser (Send_keys Post_box t) \<in> set (fst (post_to_linkedin cfg b caption hashtags url))
         \<longrightarrow> t = full_caption caption hashtags)"
proof (intro conjI impI)
  show "full_caption caption hashtags = rendered_payload caption hashtags"
    by (simp add: full_caption_def rendered_payload_def join_hashtags)
  show "full_caption ''Hello'' [''AI'', ''Leadership'']
         = ''Hello'' @ [CHR 0x0A, CHR 0x0A] @ ''#AI #Leadership''"
    by (simp add: full_caption_def)
  show "t = full_caption caption hashtags"
    if "Browser (Send_keys Post_box t) \<in> set (fst (post_to_linkedin cfg b caption hashtags url))"
    using that by (rule post_box_text)
qed

theorem full_caption_format_witness:
  "Browser (Send_keys Post_box (''Hello'' @ [CHR 0x0A, CHR 0x0A] @ ''#AI #Leadership''))
     \<in> set (fst (post_to_linkedin example_config (example_browser [])
                    ''Hello'' [''AI'', ''Leadership''] ''https://blog.example/a''))
   \<and> ''Hello'' @ [CHR 0x0A, CHR 0x0A] @ ''#AI #Leadership''
       = full_caption ''Hello'' [''AI'', ''Leadership'']"
proof -
  have m: "Browser (Send_keys Post_box (''Hello'' @ [CHR 0x0A, CHR 0x0A] @ ''#AI #Leadership''))
     \<in> set (fst (post_to_linkedin example_config (example_browser [])
                    ''Hello'' [''AI'', ''Leadership''] ''https://blog.example/a''))"
    by (simp add: post_to_linkedin_def finally_quit_def login_steps_def compose_steps_def
        comment_steps_def example_config_def example_browser_def full_caption_def)
  from full_caption_format
         [of "''Hello''" "[''AI'', ''Leadership'']"
             "''Hello'' @ [CHR 0x0A, CHR 0x0A] @ ''#AI #Leadership''"
             example_config "example_browser []" "''https://blog.example/a''"] m
  show ?thesis by blast
qed

section \<open>Variant selector\<close>

subsection \<open>The stable descending sort\<close>

lemma insert_desc_nonempty: "insert_desc k x ys \<noteq> []"
  by (cases ys) simp_all

lemma sorted_reverse_Nil_iff: "sorted_reverse k xs = [] \<longleftrightarrow> xs = []"
  by (cases xs) (simp_all add: insert_desc_nonempty)

lemma hd_insert_desc:
  "hd (insert_desc k x ys) = (case ys of [] \<Rightarrow> x | y # _ \<Rightarrow> if k y \<le> k x then x else y)"
  by (cases ys) simp_all

lemma mset_insert_desc: "mset (insert_desc k x ys) = add_mset x (mset ys)"
  by (induction ys) simp_all

lemma mset_sorted_reverse: "mset (sorted_reverse k xs) = mset xs"
  by (induction xs) (simp_all add: mset_insert_desc)

lemma set_insert_desc: "set (insert_desc k x ys) = insert x (set ys)"
  by (induction ys) auto

text \<open>The result is in descending order of the keys, and elements with equal keys keep
  their order.\<close>

lemma sorted_reverse_descending: "sorted_wrt (\<lambda>a b. k b \<le> k a) (sorted_reverse k xs)"
proof (induction xs)
  case Nil
  then show ?case by simp
next
  case (Cons x xs)
  have "sorted_wrt (\<lambda>a b. k b \<le> k a) ys \<Longrightarrow> sorted_wrt (\<lambda>a b. k b \<le> k a) (insert_desc k x ys)"
    for ys
    by (induction ys) (auto simp: set_insert_desc)
  with Cons show ?case by simp
qed

lemma sorted_reverse_stable:
  "filter (\<lambda>y. k y = c) (sorted_reverse k xs) = filter (\<lambda>y. k y = c) xs"
proof (induction xs)
  case Nil
  then show ?case by simp
next
  case (Cons x xs)
  have "filter (\<lambda>y. k y = c) (insert_desc k x ys)
          = (if k x = c then x # filter (\<lambda>y. k y = c) ys else filter (\<lambda>y. k y = c) ys)" for ys
    by (induction ys) auto
  with Cons show ?case by simp
qed

lemma hd_sorted_reverse_first_max:
  "xs \<noteq> [] \<Longrightarrow> \<exists>i<length xs. hd (sorted_reverse k xs) = xs ! i
      \<and> (\<forall>j<length xs. k (xs ! j) \<le> k (xs ! i)) \<and> (\<forall>j<i. k (xs ! j) < k (xs ! i))"
proof (induction xs)
  case Nil
  then show ?case by simp
next
  case (Cons x xs)
  show ?case
  proof (cases "xs = []")
    case True
    then show ?thesis by simp
  next
    case False
    with Cons.IH obtain i where i: "i < length xs" "hd (sorted_reverse k xs) = xs ! i"
      "\<forall>j<length xs. k (xs ! j) \<le> k (xs ! i)" "\<forall>j<i. k (xs ! j) < k (xs ! i)"
      by blast
    from False obtain y ys where ys: "sorted_reverse k xs = y # ys"
      by (cases "sorted_reverse k xs") (simp_all add: sorted_reverse_Nil_iff)
    with i have y: "y = xs ! i" by simp
    show ?thesis
    proof (cases "k y \<le> k x")
      case True
      have "\<forall>j<length (x # xs). k ((x # xs) ! j) \<le> k x"
      proof (intro allI impI)
        fix j assume "j < length (x # xs)"
        then show "k ((x # xs) ! j) \<le> k x"
          using i(3) True y by (cases j) auto
      qed
      with True ys show ?thesis
        by (intro exI[of _ 0]) simp
    next
      case False
      have a: "\<forall>j<length (x # xs). k ((x # xs) ! j) \<le> k ((x # xs) ! Suc i)"
      proof (intro allI impI)
        fix j assume "j < length (x # xs)"
        then show "k ((x # xs) ! j) \<le> k ((x # xs) ! Suc i)"
          using i(3) False y by (cases j) auto
      qed
      have b: "\<forall>j<Suc i. k ((x # xs) ! j) < k ((x # xs) ! Suc i)"
      proof (intro allI impI)
        fix j assume "j < Suc i"
        then show "k ((x # xs) ! j) < k ((x # xs) ! Suc i)"
          using i(4) False y by (cases j) auto
      qed
      from False ys y i(1) a b show ?thesis
        by (intro exI[of _ "Suc i"]) simp
    qed
  qed
qed

lemma select_best_variant_cases:
  "select_best_variant vs =
     (if vs = [] then ([], Inr None)
      else let best = hd (sorted_reverse score_key vs) in
        case v_type best of
          None \<Rightarrow> ([], Inl (KeyError ''type''))
        | Some ty \<Rightarrow>
            (case v_engagement_score best of
               None \<Rightarrow> ([], Inl (KeyError ''engagement_score''))
             | Some score \<Rightarrow>
                 (case v_why_it_works best of
                    None \<Rightarrow> ([Log (Selected ty score)], Inl (KeyError ''why_it_works''))
                  | Some why \<Rightarrow> ([Log (Selected ty score), Log (Why why)], Inr (Some best)))))"
proof (cases "sorted_reverse score_key vs")
  case Nil
  then have "vs = []" by (simp add: sorted_reverse_Nil_iff)
  then show ?thesis by (simp add: select_best_variant_def)
next
  case (Cons y ys)
  then have "vs \<noteq> []" by auto
  with Cons show ?thesis by (simp add: select_best_variant_def)
qed

lemma select_none_iff: "snd (select_best_variant vs) = Inr None \<longleftrightarrow> vs = []"
  by (simp add: select_best_variant_cases Let_def split: option.splits)

lemma select_some:
  "select_best_variant vs = (evs, Inr (Some best)) \<Longrightarrow>
     vs \<noteq> [] \<and> best = hd (sorted_reverse score_key vs) \<and> best \<in> set vs \<and> v_type best \<noteq> None
       \<and> v_engagement_score best \<noteq> None \<and> v_why_it_works best \<noteq> None"
proof -
  assume a: "select_best_variant vs = (evs, Inr (Some best))"
  then have ne: "vs \<noteq> []" by (auto simp: select_best_variant_cases)
  then have "hd (sorted_reverse score_key vs) \<in> set (sorted_reverse score_key vs)"
    by (simp add: sorted_reverse_Nil_iff)
  then have "hd (sorted_reverse score_key vs) \<in> set vs"
    using mset_sorted_reverse[of score_key vs] by (metis set_mset_mset)
  with a ne show ?thesis
    by (auto simp: select_best_variant_cases Let_def split: option.splits)
qed

lemma select_well_formed:
  assumes "vs \<noteq> []" "\<forall>v\<in>set vs. v_type v \<noteq> None \<and> v_engagement_score v \<noteq> None \<and> v_why_it_works v \<noteq> None"
  shows "snd (select_best_variant vs) = Inr (Some (hd (sorted_reverse score_key vs)))"
proof -
  from assms(1) have "hd (sorted_reverse score_key vs) \<in> set (sorted_reverse score_key vs)"
    by (simp add: sorted_reverse_Nil_iff)
  then have "hd (sorted_reverse score_key vs) \<in> set vs"
    using mset_sorted_reverse[of score_key vs] by (metis set_mset_mset)
  with assms show ?thesis
    by (auto simp: select_best_variant_cases Let_def split: option.splits)
qed

text \<open>
  Claim C7. The selector returns nothing exactly when the list of candidates is empty. On a
  non-empty list of candidates (each carrying its style tag, score and rationale, as a
  candidate of the data model does) it returns a candidate with the highest score, and among
  several with the highest score the one listed first: every candidate before it has a
  strictly smaller score. For the scores 85, 90, 88 over the tags personal_story,
  question_interrupt, contrarian_hook it returns the question_interrupt candidate, and for
  the scores 90, 90, 80 the first of the tied pair.
\<close>

theorem select_best_variant_highest_first:
  "(snd (select_best_variant vs) = Inr None \<longleftrightarrow> vs = [])
   \<and> (vs \<noteq> [] \<and> (\<forall>v\<in>set vs. v_type v \<noteq> None \<and> v_engagement_score v \<noteq> None
                                  \<and> v_why_it_works v \<noteq> None) \<longrightarrow>
        (\<exists>i<length vs. snd (select_best_variant vs) = Inr (Some (vs ! i))
           \<and> (\<forall>j<length vs. score_key (vs ! j) \<le> score_key (vs ! i))
           \<and> (\<forall>j<i. score_key (vs ! j) < score_key (vs ! i))))
   \<and> (\<forall>v s. v_engagement_score v = Some s \<longrightarrow> score_key v = s)
   \<and> (v_type a = Some ''personal_story'' \<and> v_type b = Some ''question_interrupt''
        \<and> v_type c = Some ''contrarian_hook''
        \<and> v_why_it_works a \<noteq> None \<and> v_why_it_works b \<noteq> None \<and> v_why_it_works c \<noteq> None \<longrightarrow>
        (v_engagement_score a = Some 85 \<and> v_engagement_score b = Some 90
           \<and> v_engagement_score c = Some 88 \<longrightarrow> snd (select_best_variant [a, b, c]) = Inr (Some b))
        \<and> (v_engagement_score a = Some 90 \<and> v_engagement_score b = Some 90
           \<and> v_engagement_score c = Some 80 \<longrightarrow> snd (select_best_variant [a, b, c]) = Inr (Some a)))"
proof (intro conjI)
  show "snd (select_best_variant vs) = Inr None \<longleftrightarrow> vs = []"
    by (rule select_none_iff)
  show "vs \<noteq> [] \<and> (\<forall>v\<in>set vs. v_type v \<noteq> None \<and> v_engagement_score v \<noteq> None
                                  \<and> v_why_it_works v \<noteq> None) \<longrightarrow>
        (\<exists>i<length vs. snd (select_best_variant vs) = Inr (Some (vs ! i))
           \<and> (\<forall>j<length vs. score_key (vs ! j) \<le> score_key (vs ! i))
           \<and> (\<forall>j<i. score_key (vs ! j) < score_key (vs ! i)))"
  proof
    assume h: "vs \<noteq> [] \<and> (\<forall>v\<in>set vs. v_type v \<noteq> None \<and> v_engagement_score v \<noteq> None
                                  \<and> v_why_it_works v \<noteq> None)"
    then have "snd (select_best_variant vs) = Inr (Some (hd (sorted_reverse score_key vs)))"
      by (simp add: select_well_formed)
    with hd_sorted_reverse_first_max[of vs score_key] h show
      "\<exists>i<length vs. snd (select_best_variant vs) = Inr (Some (vs ! i))
           \<and> (\<forall>j<length vs. score_key (vs ! j) \<le> score_key (vs ! i))
           \<and> (\<forall>j<i. score_key (vs ! j) < score_key (vs ! i))"
      by auto
  qed
  show "\<forall>v s. v_engagement_score v = Some s \<longrightarrow> score_key v = s"
    by (simp add: score_key_def get_or_def)
  show "v_type a = Some ''personal_story'' \<and> v_type b = Some ''question_interrupt''
        \<and> v_type c = Some ''contrarian_hook''
        \<and> v_why_it_works a \<noteq> None \<and> v_why_it_works b \<noteq> None \<and> v_why_it_works c \<noteq> None \<longrightarrow>
        (v_engagement_score a = Some 85 \<and> v_engagement_score b = Some 90
           \<and> v_engagement_score c = Some 88 \<longrightarrow> snd (select_best_variant [a, b, c]) = Inr (Some b))
        \<and> (v_engagement_score a = Some 90 \<and> v_engagement_score b = Some 90
           \<and> v_engagement_score c = Some 80 \<longrightarrow> snd (select_best_variant [a, b, c]) = Inr (Some a))"
    by (auto simp: select_best_variant_def score_key_def get_or_def)
qed

theorem select_best_variant_highest_first_witness:
  "snd (select_best_variant
          [example_variant ''personal_story'' (Some 90),
           example_variant ''question_interrupt'' (Some 90),
           example_variant ''contrarian_hook'' (Some 80)])
     = Inr (Some (example_variant ''personal_story'' (Some 90)))
   \<and> (\<exists>i<3. snd (select_best_variant
          [example_variant ''personal_story'' (Some 85),
           example_variant ''question_interrupt'' (Some 90),
           example_variant ''contrarian_hook'' (Some 88)])
         = Inr (Some ([example_variant ''personal_story'' (Some 85),
           example_variant ''question_interrupt'' (Some 90),
           example_variant ''contrarian_hook'' (Some 88)] ! i)) \<and> i = 1)"
  using select_best_variant_highest_first
          [of "[example_variant ''personal_story'' (Some 85),
           example_variant ''question_interrupt'' (Some 90),
           example_variant ''contrarian_hook'' (Some 88)]"
           "example_variant ''personal_story'' (Some 90)"
           "example_variant ''question_interrupt'' (Some 90)"
           "example_variant ''contrarian_hook'' (Some 80)"]
  by (simp add: example_variant_def select_best_variant_def score_key_def get_or_def)

lemma map_insert_desc:
  "(\<forall>y. k (f y) = k y) \<Longrightarrow> map f (insert_desc k x ys) = insert_desc k (f x) (map f ys)"
  by (induction ys) simp_all

lemma score_key_default: "score_key (default_score v) = score_key v"
  by (simp add: default_score_def score_key_def get_or_def split: option.splits)

text \<open>
  Claim C10. A candidate without the score key is ranked as if its score were 0: ranking
  commutes with filling in the score 0, the ranking is produced for every list (it is a
  rearrangement of the input, no step of it fails), the sort key of such a candidate is 0,
  and when some candidate of the list has a positive score the first of the ranking has a
  positive score too, so that no candidate without a score is chosen over it.
\<close>

theorem missing_score_ranked_as_zero:
  "map default_score (sorted_reverse score_key vs) = sorted_reverse score_key (map default_score vs)
   \<and> mset (sorted_reverse score_key vs) = mset vs
   \<and> (v_engagement_score v = None \<longrightarrow> score_key v = 0)
   \<and> (v \<in> set vs \<and> v_engagement_score v = None \<and> (\<exists>u\<in>set vs. \<exists>s>0. v_engagement_score u = Some s) \<longrightarrow>
        hd (sorted_reverse score_key vs) \<noteq> v \<and> snd (select_best_variant vs) \<noteq> Inr (Some v)
        \<and> (\<exists>s>0. v_engagement_score (hd (sorted_reverse score_key vs)) = Some s))"
proof (intro conjI)
  show "map default_score (sorted_reverse score_key vs) = sorted_reverse score_key (map default_score vs)"
    by (induction vs) (simp_all add: map_insert_desc score_key_default)
  show "mset (sorted_reverse score_key vs) = mset vs"
    by (rule mset_sorted_reverse)
  show "v_engagement_score v = None \<longrightarrow> score_key v = 0"
    by (simp add: score_key_def get_or_def)
  show "v \<in> set vs \<and> v_engagement_score v = None \<and> (\<exists>u\<in>set vs. \<exists>s>0. v_engagement_score u = Some s) \<longrightarrow>
        hd (sorted_reverse score_key vs) \<noteq> v \<and> snd (select_best_variant vs) \<noteq> Inr (Some v)
        \<and> (\<exists>s>0. v_engagement_score (hd (sorted_reverse score_key vs)) = Some s)"
  proof
    assume h: "v \<in> set vs \<and> v_engagement_score v = None \<and> (\<exists>u\<in>set vs. \<exists>s>0. v_engagement_score u = Some s)"
    then obtain u s where u: "u \<in> set vs" "0 < s" "v_engagement_score u = Some s" by blast
    from h have ne: "vs \<noteq> []" by auto
    from hd_sorted_reverse_first_max[OF ne, of score_key] obtain i where
      i: "i < length vs" "hd (sorted_reverse score_key vs) = vs ! i"
         "\<forall>j<length vs. score_key (vs ! j) \<le> score_key (vs ! i)" by blast
    from u(1) obtain j where "j < length vs" "vs ! j = u" by (auto simp: in_set_conv_nth)
    with i(3) have "score_key u \<le> score_key (vs ! i)" by auto
    with u have pos: "0 < score_key (hd (sorted_reverse score_key vs))"
      by (simp add: i(2) score_key_def get_or_def)
    then have sc: "\<exists>s>0. v_engagement_score (hd (sorted_reverse score_key vs)) = Some s"
      by (cases "v_engagement_score (hd (sorted_reverse score_key vs))")
         (simp_all add: score_key_def get_or_def)
    with h have neq: "hd (sorted_reverse score_key vs) \<noteq> v" by auto
    have "snd (select_best_variant vs) \<noteq> Inr (Some v)"
    proof
      assume "snd (select_best_variant vs) = Inr (Some v)"
      then have "select_best_variant vs = (fst (select_best_variant vs), Inr (Some v))"
        by (metis prod.collapse)
      from select_some[OF this] neq show False by simp
    qed
    with neq sc show "hd (sorted_reverse score_key vs) \<noteq> v \<and> snd (select_best_variant vs) \<noteq> Inr (Some v)
        \<and> (\<exists>s>0. v_engagement_score (hd (sorted_reverse score_key vs)) = Some s)" by simp
  qed
qed

theorem missing_score_ranked_as_zero_witness:
  "hd (sorted_reverse score_key
         [example_variant ''personal_story'' None, example_variant ''question_interrupt'' (Some 1)])
     \<noteq> example_variant ''personal_story'' None
   \<and> snd (select_best_variant
         [example_variant ''personal_story'' None, example_variant ''question_interrupt'' (Some 1)])
     = Inr (Some (example_variant ''question_interrupt'' (Some 1)))"
  using missing_score_ranked_as_zero
          [of "[example_variant ''personal_story'' None, example_variant ''question_interrupt'' (Some 1)]"
              "example_variant ''personal_story'' None"]
  by (simp add: example_variant_def select_best_variant_def score_key_def get_or_def)

text \<open>
  When the first of the ranking is itself a candidate without a score (no candidate has a
  positive one), the log line after the ranking (line 267) raises KeyError.
\<close>

lemma select_missing_score_chosen:
  "select_best_variant [example_variant ''personal_story'' None, example_variant ''question_interrupt'' (Some 0)]
     = ([], Inl (KeyError ''engagement_score''))"
  by (simp add: example_variant_def select_best_variant_def score_key_def get_or_def)

section \<open>Feed scanner\<close>

lemma after_simps:
  "outcome (after evs r) = outcome r"
  "cache_file (after evs r) = cache_file r"
  "events (after evs r) = evs @ events r"
  by (simp_all add: after_def)

lemma is_already_posted_dom:
  "is_already_posted h cache url \<longleftrightarrow> get_article_hash h url \<in> dom (load_posted_articles cache)"
  by (auto simp: is_already_posted_def)

lemma is_already_posted_save:
  "is_already_posted h (save_posted_article h t url info cache) url' \<longleftrightarrow>
     (h url' = h url \<or> is_already_posted h cache url')"
  by (auto simp: is_already_posted_def save_posted_article_def load_posted_articles_def
      get_article_hash_def Let_def)

lemma scan_entries_all_posted:
  "\<forall>e \<in> set es. is_already_posted h cache (get_or (e_link e) [])
   \<Longrightarrow> scan_entries h cache es = ([Log No_new_posts], Inr None)"
  by (induction es) simp_all

lemma scan_entries_first_unposted:
  assumes "\<forall>e \<in> set pre. is_already_posted h cache (get_or (e_link e) [])"
    and "\<not> is_already_posted h cache (get_or (e_link e) [])"
  shows "scan_entries h cache (pre @ e # post) =
     (case make_post_data e (get_or (e_link e) []) of
        Inl err \<Rightarrow> ([], Inl err)
      | Inr p \<Rightarrow> ([Log (Found_new_post (pd_title p))], Inr (Some p)))"
  using assms by (induction pre) simp_all

lemma scan_entries_found:
  "scan_entries h cache es = (evs, Inr (Some p)) \<Longrightarrow>
     \<not> is_already_posted h cache (pd_link p) \<and>
     (\<exists>e \<in> set es. pd_link p = get_or (e_link e) [] \<and> make_post_data e (pd_link p) = Inr p)"
proof (induction es)
  case Nil
  then show ?case by simp
next
  case (Cons e es)
  show ?case
  proof (cases "is_already_posted h cache (get_or (e_link e) [])")
    case True
    with Cons show ?thesis by simp
  next
    case False
    with Cons.prems have "make_post_data e (get_or (e_link e) []) = Inr p"
      by (auto split: sum.splits)
    moreover from this have "pd_link p = get_or (e_link e) []"
      by (auto simp: make_post_data_def split: list.splits)
    ultimately show ?thesis using False by simp
  qed
qed

lemma fetch_found:
  "fetch_latest_blog_post h pf cache rss = (evs, Some p) \<Longrightarrow>
     \<not> is_already_posted h cache (pd_link p) \<and>
     (\<exists>es. pf rss = Feed es \<and> (\<exists>e \<in> set es. pd_link p = get_or (e_link e) []))"
  by (auto simp: fetch_latest_blog_post_def split: feed_result.splits if_splits prod.splits sum.splits
      dest!: scan_entries_found)

lemma make_post_data_ok:
  "e_content e \<noteq> Some [] \<Longrightarrow> make_post_data e url =
     Inr \<lparr>pd_title = get_or (e_title e) ''Untitled'', pd_link = url,
          pd_published = get_or (e_published e) [], pd_summary = get_or (e_summary e) [],
          pd_content = get_or (hd (get_or (e_content e) [None])) (get_or (e_summary e) [])\<rparr>"
  by (cases "e_content e") (auto simp: make_post_data_def get_or_def split: list.splits)

text \<open>
  Claim C4. For every feed and every state of the dedup store, the feed scanner returns the
  first entry in feed order whose fingerprint is absent from the store (all entries before
  it are recorded); it returns nothing when the feed is empty or every entry is recorded;
  and a failure to retrieve the feed yields nothing as well, not an exception. An entry is
  taken to carry at least one item in its content list when it has such a list, as the feed
  parser delivers it.
\<close>

theorem fetch_latest_blog_post_first_unposted:
  "(pf rss = Feed_raises ex \<longrightarrow> snd (fetch_latest_blog_post h pf cache rss) = None)
   \<and> (pf rss = Feed [] \<longrightarrow> snd (fetch_latest_blog_post h pf cache rss) = None)
   \<and> (pf rss = Feed es \<and> (\<forall>e \<in> set es. is_already_posted h cache (get_or (e_link e) []))
        \<longrightarrow> snd (fetch_latest_blog_post h pf cache rss) = None)
   \<and> (pf rss = Feed (pre @ e # post)
        \<and> (\<forall>x \<in> set pre. is_already_posted h cache (get_or (e_link x) []))
        \<and> \<not> is_already_posted h cache (get_or (e_link e) [])
        \<and> e_content e \<noteq> Some []
        \<longrightarrow> (\<exists>p. snd (fetch_latest_blog_post h pf cache rss) = Some p
               \<and> make_post_data e (get_or (e_link e) []) = Inr p
               \<and> pd_link p = get_or (e_link e) []
               \<and> pd_title p = get_or (e_title e) ''Untitled''
               \<and> pd_published p = get_or (e_published e) []
               \<and> pd_summary p = get_or (e_summary e) []))
   \<and> (is_already_posted h cache url
        \<longleftrightarrow> get_article_hash h url \<in> dom (load_posted_articles cache))"
proof (intro conjI impI)
  show "snd (fetch_latest_blog_post h pf cache rss) = None" if "pf rss = Feed_raises ex"
    using that by (simp add: fetch_latest_blog_post_def)
  show "snd (fetch_latest_blog_post h pf cache rss) = None" if "pf rss = Feed []"
    using that by (simp add: fetch_latest_blog_post_def)
  show "snd (fetch_latest_blog_post h pf cache rss) = None"
    if "pf rss = Feed es \<and> (\<forall>e \<in> set es. is_already_posted h cache (get_or (e_link e) []))"
    using that by (simp add: fetch_latest_blog_post_def scan_entries_all_posted)
  show "\<exists>p. snd (fetch_latest_blog_post h pf cache rss) = Some p
               \<and> make_post_data e (get_or (e_link e) []) = Inr p
               \<and> pd_link p = get_or (e_link e) []
               \<and> pd_title p = get_or (e_title e) ''Untitled''
               \<and> pd_published p = get_or (e_published e) []
               \<and> pd_summary p = get_or (e_summary e) []"
    if a: "pf rss = Feed (pre @ e # post)
        \<and> (\<forall>x \<in> set pre. is_already_posted h cache (get_or (e_link x) []))
        \<and> \<not> is_already_posted h cache (get_or (e_link e) [])
        \<and> e_content e \<noteq> Some []"
  proof -
    from a have "scan_entries h cache (pre @ e # post) =
       (case make_post_data e (get_or (e_link e) []) of
          Inl err \<Rightarrow> ([], Inl err)
        | Inr p \<Rightarrow> ([Log (Found_new_post (pd_title p))], Inr (Some p)))"
      by (simp add: scan_entries_first_unposted)
    with a show ?thesis
      by (simp add: fetch_latest_blog_post_def make_post_data_ok)
  qed
  show "is_already_posted h cache url
        \<longleftrightarrow> get_article_hash h url \<in> dom (load_posted_articles cache)"
    by (rule is_already_posted_dom)
qed

theorem fetch_latest_blog_post_first_unposted_witness:
  "snd (fetch_latest_blog_post (\<lambda>u. u)
          (\<lambda>u. Feed [example_entry ''https://blog.example/b'', example_entry ''https://blog.example/a''])
          (Some [''https://blog.example/b'' \<mapsto>
                  \<lparr>pr_url = ''https://blog.example/b'', pr_posted_at = ''2025-01-05T09:00:00'',
                   pr_title = ''Post'', pr_variant_used = ''personal_story''\<rparr>])
          ''https://blog.example/rss'')
     = Some (example_post ''https://blog.example/a'')"
proof -
  let ?pf = "\<lambda>u::string. Feed [example_entry ''https://blog.example/b'', example_entry ''https://blog.example/a'']"
  let ?cache = "Some [''https://blog.example/b'' \<mapsto>
                  \<lparr>pr_url = ''https://blog.example/b'', pr_posted_at = ''2025-01-05T09:00:00'',
                   pr_title = ''Post'', pr_variant_used = ''personal_story''\<rparr>]"
  have h: "?pf ''https://blog.example/rss''
             = Feed ([example_entry ''https://blog.example/b''] @ example_entry ''https://blog.example/a'' # [])
        \<and> (\<forall>x \<in> set [example_entry ''https://blog.example/b''].
               is_already_posted (\<lambda>u. u) ?cache (get_or (e_link x) []))
        \<and> \<not> is_already_posted (\<lambda>u. u) ?cache (get_or (e_link (example_entry ''https://blog.example/a'')) [])
        \<and> e_content (example_entry ''https://blog.example/a'') \<noteq> Some []"
    by (simp add: example_entry_def is_already_posted_def load_posted_articles_def
        get_article_hash_def get_or_def)
  from fetch_latest_blog_post_first_unposted
         [of ?pf "''https://blog.example/rss''" "''timeout''" "\<lambda>u. u" ?cache "[]"
             "[example_entry ''https://blog.example/b'']" "example_entry ''https://blog.example/a''" "[]"
             "''https://blog.example/a''"] h
  obtain p where p: "snd (fetch_latest_blog_post (\<lambda>u. u) ?pf ?cache ''https://blog.example/rss'') = Some p"
    "make_post_data (example_entry ''https://blog.example/a'')
        (get_or (e_link (example_entry ''https://blog.example/a'')) []) = Inr p"
    by blast
  from p(2) have "p = example_post ''https://blog.example/a''"
    by (simp add: make_post_data_def example_entry_def example_post_def get_or_def)
  with p(1) show ?thesis by simp
qed

text \<open>
  An entry whose content list is present and empty, which the feed parser does not deliver,
  makes line 107 raise IndexError; the handler of line 115 turns it into the result nothing.
\<close>

lemma fetch_empty_content_list:
  "pf rss = Feed [e] \<Longrightarrow> \<not> is_already_posted h cache (get_or (e_link e) []) \<Longrightarrow>
     e_content e = Some [] \<Longrightarrow>
   fetch_latest_blog_post h pf cache rss =
     ([Log Fetching_feed, Net_feed rss, Log (Error_fetching ''list index out of range'')], None)"
  by (simp add: fetch_latest_blog_post_def make_post_data_def get_or_def show_error_def)

section \<open>Events and results of the stages\<close>

lemma run_script_events: "list_all (\<lambda>e. is_log e \<or> is_browser e) (fst (run_script b ss))"
  by (induction b ss rule: run_script.induct)
     (auto split: option.splits prod.splits if_splits)

lemma post_to_linkedin_events:
  "list_all (\<lambda>e. is_log e \<or> is_browser e) (fst (post_to_linkedin cfg b c hs url))"
proof -
  have a: "list_all (\<lambda>e. is_log e \<or> is_browser e) evs"
    if "run_script b ss = (evs, r)" for ss evs r
    using run_script_events[of b ss] that by simp
  show ?thesis
    by (auto simp: post_to_linkedin_def finally_quit_def run_script_events
      split: if_splits option.splits exit.splits prod.splits dest: a)
qed

lemma post_to_linkedin_no_write:
  "post_to_linkedin cfg b c hs url = (evs, r) \<Longrightarrow> e \<in> set evs \<Longrightarrow> \<not> is_store_write e"
  using post_to_linkedin_events[of cfg b c hs url] by (cases e) (auto simp: list_all_iff)

lemma post_and_save_outcome:
  "outcome (post_and_save cfg w cache p v) = Automation_complete p' v' \<longleftrightarrow>
     p' = p \<and> v' = v \<and>
     (\<exists>c hs ty s. v_caption v = Some c \<and> v_hashtags v = Some hs \<and> v_type v = Some ty
        \<and> v_engagement_score v = Some s
        \<and> snd (post_to_linkedin cfg (chrome w) c hs (pd_link p)))"
  by (auto simp: post_and_save_def Let_def split: option.splits prod.splits)

lemma post_and_save_failed:
  "outcome (post_and_save cfg w cache p v) = Posting_failed p' v' \<longleftrightarrow>
     p' = p \<and> v' = v \<and>
     (\<exists>c hs. v_caption v = Some c \<and> v_hashtags v = Some hs
        \<and> \<not> snd (post_to_linkedin cfg (chrome w) c hs (pd_link p)))"
  by (auto simp: post_and_save_def Let_def split: option.splits prod.splits)

lemma post_and_save_cache:
  "v_type v \<noteq> None \<Longrightarrow> v_engagement_score v \<noteq> None \<Longrightarrow>
   cache_file (post_and_save cfg w cache p v) =
     (if \<exists>p' v'. outcome (post_and_save cfg w cache p v) = Automation_complete p' v'
      then save_posted_article (md5 w) (now w) (pd_link p)
             [''title'' \<mapsto> pd_title p, ''variant_used'' \<mapsto> the (v_type v)] cache
      else cache)"
  by (auto simp: post_and_save_def Let_def split: option.splits prod.splits)

lemma post_and_save_store_write:
  "v_type v \<noteq> None \<Longrightarrow> v_engagement_score v \<noteq> None \<Longrightarrow>
   Store_write fp record \<in> set (events (post_and_save cfg w cache p v)) \<longleftrightarrow>
     outcome (post_and_save cfg w cache p v) = Automation_complete p v
     \<and> fp = get_article_hash (md5 w) (pd_link p)
     \<and> record = \<lparr>pr_url = pd_link p, pr_posted_at = now w, pr_title = pd_title p,
                  pr_variant_used = the (v_type v)\<rparr>"
  by (auto simp: post_and_save_def Let_def split: option.splits prod.splits
      dest: post_to_linkedin_no_write)

lemma scan_entries_events: "list_all is_log (fst (scan_entries h cache es))"
  by (induction es) (auto simp: Let_def split: sum.splits)

lemma is_log_quiet: "is_log e \<Longrightarrow> \<not> is_browser e \<and> \<not> is_store_write e \<and> \<not> is_network_call e"
  by (cases e) simp_all

lemma fetch_events:
  "list_all (\<lambda>e. \<not> is_browser e \<and> \<not> is_store_write e) (fst (fetch_latest_blog_post h pf cache rss))"
proof -
  have "list_all (\<lambda>e. \<not> is_browser e \<and> \<not> is_store_write e) evs"
    if "scan_entries h cache es = (evs, r)" for es evs r
  proof -
    from scan_entries_events[of h cache es] that have "list_all is_log evs" by simp
    then show ?thesis
      by (auto simp: list_all_iff dest: is_log_quiet)
  qed
  then show ?thesis
    by (auto simp: fetch_latest_blog_post_def split: feed_result.splits prod.splits sum.splits)
qed

lemma generate_events:
  "list_all (\<lambda>e. \<not> is_browser e \<and> \<not> is_store_write e)
     (fst (generate_linkedin_variants ch be jl p))"
  by (auto simp: generate_linkedin_variants_def Let_def
      split: sum.splits api_response.splits option.splits json_doc.splits)

lemma select_events:
  "list_all (\<lambda>e. \<not> is_browser e \<and> \<not> is_store_write e) (fst (select_best_variant vs))"
  by (auto simp: select_best_variant_def split: list.splits option.splits)

lemma select_value_events:
  "list_all (\<lambda>e. \<not> is_browser e \<and> \<not> is_store_write e) (fst (select_best_variant_value x))"
  by (cases x) (simp_all add: select_events)

lemma main_dichotomy:
  "(cache_file (main cfg w cache) = cache
      \<and> list_all (\<lambda>e. \<not> is_browser e \<and> \<not> is_store_write e) (events (main cfg w cache))
      \<and> (\<forall>p v. outcome (main cfg w cache) \<noteq> Automation_complete p v
               \<and> outcome (main cfg w cache) \<noteq> Posting_failed p v))
   \<or> (\<exists>pre p vs v. rss_url cfg \<noteq> [] \<and> api_key cfg \<noteq> []
        \<and> snd (fetch_latest_blog_post (md5 w) (parse_feed w) cache (rss_url cfg)) = Some p
        \<and> snd (generate_linkedin_variants (clean_html w) (backend w) (json_loads w) p)
             = Inr (Some (Objects vs)) \<and> vs \<noteq> []
        \<and> snd (select_best_variant vs) = Inr (Some v)
        \<and> list_all (\<lambda>e. \<not> is_browser e \<and> \<not> is_store_write e) pre
        \<and> main cfg w cache = after pre (post_and_save cfg w cache p v))"
proof -
  obtain e1 f where f: "fetch_latest_blog_post (md5 w) (parse_feed w) cache (rss_url cfg) = (e1, f)"
    by (cases "fetch_latest_blog_post (md5 w) (parse_feed w) cache (rss_url cfg)")
  have q1: "list_all (\<lambda>e. \<not> is_browser e \<and> \<not> is_store_write e) e1"
    using fetch_events[of "md5 w" "parse_feed w" cache "rss_url cfg"] f by simp
  show ?thesis
  proof (cases "rss_url cfg = [] \<or> api_key cfg = [] \<or> f = None")
    case True
    with f q1 show ?thesis
      by (auto simp: main_def after_def)
  next
    case False
    then obtain p where p: "f = Some p" by auto
    obtain e2 g where g: "generate_linkedin_variants (clean_html w) (backend w) (json_loads w) p = (e2, g)"
      by (cases "generate_linkedin_variants (clean_html w) (backend w) (json_loads w) p")
    have q2: "list_all (\<lambda>e. \<not> is_browser e \<and> \<not> is_store_write e) e2"
      using generate_events[of "clean_html w" "backend w" "json_loads w" p] g by simp
    show ?thesis
    proof (cases g)
      case (Inl err)
      with False f p g q1 q2 show ?thesis
        by (auto simp: main_def after_def)
    next
      case (Inr gen)
      show ?thesis
      proof (cases "is_falsy gen")
        case True
        with Inr False f p g q1 q2 show ?thesis
          by (auto simp: main_def after_def)
      next
        case nf: False
        then obtain x where x: "gen = Some x" "len x \<noteq> 0"
          by (cases gen) auto
        obtain e3 s where s: "select_best_variant_value x = (e3, s)"
          by (cases "select_best_variant_value x")
        have q3: "list_all (\<lambda>e. \<not> is_browser e \<and> \<not> is_store_write e) e3"
          using select_value_events[of x] s by simp
        have early: ?thesis if "\<forall>v. s \<noteq> Inr (Some v)"
        proof (cases s)
          case (Inl err)
          with Inr nf x False f p g s q1 q2 q3 show ?thesis
            by (auto simp: main_def after_def get_or_def)
        next
          case r: (Inr b)
          with that have "b = None" by (cases b) auto
          with r Inr nf x False f p g s q1 q2 q3 show ?thesis
            by (auto simp: main_def after_def get_or_def)
        qed
        show ?thesis
        proof (cases "\<exists>v. s = Inr (Some v)")
          case False
          then show ?thesis using early by simp
        next
          case True
          then obtain v where v: "s = Inr (Some v)" by blast
          from s v x obtain vs where vs: "x = Objects vs" "vs \<noteq> []"
            by (cases x) (auto split: if_splits)
          with s v have sel: "select_best_variant vs = (e3, Inr (Some v))" by simp
          have "main cfg w cache =
              after ([Log Rule_line, Log Starting_line, Log Rule_line] @ Log Step1 # e1
                       @ Log Step2 # e2 @ Log Step3 # e3) (post_and_save cfg w cache p v)"
            using Inr nf x vs s v \<open>\<not> (rss_url cfg = [] \<or> api_key cfg = [] \<or> f = None)\<close> f p g
            by (simp add: main_def after_def get_or_def)
          moreover have "list_all (\<lambda>e. \<not> is_browser e \<and> \<not> is_store_write e)
               ([Log Rule_line, Log Starting_line, Log Rule_line] @ Log Step1 # e1
                       @ Log Step2 # e2 @ Log Step3 # e3)"
            using q1 q2 q3 by simp
          ultimately show ?thesis
            using Inr x vs sel \<open>\<not> (rss_url cfg = [] \<or> api_key cfg = [] \<or> f = None)\<close> f p g
            by (intro disjI2 exI conjI) auto
        qed
      qed
    qed
  qed
qed

section \<open>Paths through the run and through the driver\<close>

lemma main_reaches_step4:
  assumes "rss_url cfg \<noteq> []" "api_key cfg \<noteq> []"
    and "snd (fetch_latest_blog_post (md5 w) (parse_feed w) cache (rss_url cfg)) = Some p"
    and "snd (generate_linkedin_variants (clean_html w) (backend w) (json_loads w) p)
           = Inr (Some (Objects vs))" "vs \<noteq> []"
    and "snd (select_best_variant vs) = Inr (Some v)"
  shows "main cfg w cache =
     after ([Log Rule_line, Log Starting_line, Log Rule_line]
              @ Log Step1 # fst (fetch_latest_blog_post (md5 w) (parse_feed w) cache (rss_url cfg))
              @ Log Step2 # fst (generate_linkedin_variants (clean_html w) (backend w) (json_loads w) p)
              @ Log Step3 # fst (select_best_variant vs))
       (post_and_save cfg w cache p v)"
proof -
  obtain e1 where 1: "fetch_latest_blog_post (md5 w) (parse_feed w) cache (rss_url cfg) = (e1, Some p)"
    using assms(3) by (metis prod.collapse)
  obtain e2 where 2: "generate_linkedin_variants (clean_html w) (backend w) (json_loads w) p
                        = (e2, Inr (Some (Objects vs)))"
    using assms(4) by (metis prod.collapse)
  obtain e3 where 3: "select_best_variant vs = (e3, Inr (Some v))"
    using assms(6) by (metis prod.collapse)
  show ?thesis
    using assms(1,2,5) by (simp add: main_def after_def get_or_def 1 2 3)
qed

lemma run_script_append:
  "run_script b (ss1 @ ss2) =
     (case snd (run_script b ss1) of
        Some x \<Rightarrow> run_script b ss1
      | None \<Rightarrow> (fst (run_script b ss1) @ fst (run_script b ss2), snd (run_script b ss2)))"
  by (induction b ss1 rule: run_script.induct)
     (auto split: option.splits prod.splits if_splits)

lemma run_script_logs:
  "Log m \<in> set (fst (run_script b ss)) \<Longrightarrow> Say m \<in> set ss \<or> m = Login_may_have_failed"
  by (induction b ss rule: run_script.induct)
     (auto split: option.splits prod.splits if_splits)

lemma run_script_none_iff:
  "list_all (\<lambda>s. \<not> is_return s) ss \<Longrightarrow>
   snd (run_script b ss) = None \<longleftrightarrow>
     (\<forall>a. Act a \<in> set ss \<longrightarrow> raises b a = None)
     \<and> (Check_login \<in> set ss \<longrightarrow> raises b Read_url = None
           \<and> (contains ''feed'' (current_url b) \<or> contains ''checkpoint'' (current_url b)))"
  by (induction b ss rule: run_script.induct)
     (auto split: option.splits prod.splits if_splits)

lemma run_script_not_true:
  "list_all (\<lambda>s. \<not> is_return s) ss \<Longrightarrow> snd (run_script b ss) \<noteq> Some (Returned True)"
  by (induction b ss rule: run_script.induct)
     (auto split: option.splits prod.splits if_splits)

lemma run_script_raised:
  "list_all (\<lambda>s. \<not> is_return s) ss \<Longrightarrow> Check_login \<notin> set ss \<Longrightarrow>
     snd (run_script b ss) = None \<or> (\<exists>ex. snd (run_script b ss) = Some (Raised ex))"
  by (induction b ss rule: run_script.induct)
     (auto split: option.splits prod.splits if_splits)

lemma post_to_linkedin_snd:
  "snd (post_to_linkedin cfg b c hs url) \<longleftrightarrow>
     selenium_available cfg \<and> linkedin_email cfg \<noteq> [] \<and> linkedin_password cfg \<noteq> []
     \<and> raises b Start_chrome = None \<and> raises b Implicitly_wait = None
     \<and> raises b Quit = None
     \<and> snd (run_script b (login_steps cfg @ compose_steps c hs @ comment_steps url))
         = Some (Returned True)"
  by (auto simp: post_to_linkedin_def finally_quit_def
      split: option.splits exit.splits prod.splits)

lemma comment_steps_split:
  "comment_steps url =
     [Say Adding_comment, Act (Wait_present Comment_box), Act (Click Comment_box),
      Act (Send_keys Comment_box (''Read the full post: '' @ url)),
      Act (Find Comment_button), Act (Click Comment_button),
      Say Comment_posted, Say Successfully_posted] @ [Return True]"
  by (simp add: comment_steps_def)

lemma script_no_return:
  "list_all (\<lambda>s. \<not> is_return s) (login_steps cfg @ compose_steps c hs @
     [Say Adding_comment, Act (Wait_present Comment_box), Act (Click Comment_box),
      Act (Send_keys Comment_box (''Read the full post: '' @ url)),
      Act (Find Comment_button), Act (Click Comment_button),
      Say Comment_posted, Say Successfully_posted])"
  by (simp add: login_steps_def compose_steps_def)

lemma run_script_then_return:
  assumes "list_all (\<lambda>s. \<not> is_return s) pre"
  shows "snd (run_script b (pre @ [Return True])) = Some (Returned True)
          \<longleftrightarrow> snd (run_script b pre) = None"
  using run_script_not_true[OF assms, of b]
  by (auto simp: run_script_append[of b pre] split: option.splits)

lemma script_success:
  "snd (post_to_linkedin cfg b c hs url) \<longleftrightarrow>
     selenium_available cfg \<and> linkedin_email cfg \<noteq> [] \<and> linkedin_password cfg \<noteq> []
     \<and> raises b Start_chrome = None \<and> raises b Implicitly_wait = None
     \<and> (\<forall>a. Act a \<in> set (login_steps cfg @ compose_steps c hs @ comment_steps url)
            \<longrightarrow> raises b a = None)
     \<and> raises b Read_url = None
     \<and> (contains ''feed'' (current_url b) \<or> contains ''checkpoint'' (current_url b))
     \<and> raises b Quit = None"
proof -
  define pre where "pre = login_steps cfg @ compose_steps c hs @
     [Say Adding_comment, Act (Wait_present Comment_box), Act (Click Comment_box),
      Act (Send_keys Comment_box (''Read the full post: '' @ url)),
      Act (Find Comment_button), Act (Click Comment_button),
      Say Comment_posted, Say Successfully_posted]"
  have body: "login_steps cfg @ compose_steps c hs @ comment_steps url = pre @ [Return True]"
    by (simp add: comment_steps_split pre_def)
  have nr: "list_all (\<lambda>s. \<not> is_return s) pre"
    unfolding pre_def by (rule script_no_return)
  have cl: "Check_login \<in> set pre" by (simp add: login_steps_def pre_def)
  have acts: "Act a \<in> set (pre @ [Return True]) \<longleftrightarrow> Act a \<in> set pre" for a
    by auto
  have "snd (run_script b (pre @ [Return True])) = Some (Returned True)
          \<longleftrightarrow> snd (run_script b pre) = None"
    by (rule run_script_then_return[OF nr])
  also have "\<dots> \<longleftrightarrow> (\<forall>a. Act a \<in> set pre \<longrightarrow> raises b a = None)
     \<and> raises b Read_url = None
     \<and> (contains ''feed'' (current_url b) \<or> contains ''checkpoint'' (current_url b))"
    using run_script_none_iff[OF nr, of b] cl by blast
  finally show ?thesis
    unfolding post_to_linkedin_snd body acts by blast
qed

subsection \<open>Evaluation on concrete inputs\<close>

lemmas run_defs =
  main_def after_def fetch_latest_blog_post_def is_already_posted_def load_posted_articles_def
  make_post_data_def get_or_def get_article_hash_def generate_linkedin_variants_def
  make_prompt_def
  select_best_variant_def score_key_def post_and_save_def post_to_linkedin_def
  finally_quit_def login_steps_def compose_steps_def comment_steps_def
  save_posted_article_def dict_get_def

lemmas example_defs =
  example_config_def example_world_def example_browser_def example_entry_def
  example_variant_def example_post_def

lemma example_run_complete:
  "outcome (main example_config
      (example_world [example_entry ''https://blog.example/a'']
         [example_variant ''personal_story'' (Some 85)] []) None)
    = Automation_complete (example_post ''https://blog.example/a'')
        (example_variant ''personal_story'' (Some 85))"
  by (simp add: run_defs example_defs)

lemma example_run_comment_fails:
  "outcome (main example_config
      (example_world [example_entry ''https://blog.example/a'']
         [example_variant ''personal_story'' (Some 85)] [Wait_present Comment_box]) None)
    = Posting_failed (example_post ''https://blog.example/a'')
        (example_variant ''personal_story'' (Some 85))"
  by (simp add: run_defs example_defs)

subsection \<open>The exits of the run\<close>

lemma select_some_snd:
  "snd (select_best_variant vs) = Inr (Some v) \<Longrightarrow>
     v \<in> set vs \<and> v_type v \<noteq> None \<and> v_engagement_score v \<noteq> None \<and> v_why_it_works v \<noteq> None"
  using select_some[of vs "fst (select_best_variant vs)" v] by (metis prod.collapse)

lemma reaches_step4_main:
  assumes "reaches_step4 cfg w cache p v"
  shows "\<exists>pre. list_all (\<lambda>e. \<not> is_browser e \<and> \<not> is_store_write e) pre
           \<and> main cfg w cache = after pre (post_and_save cfg w cache p v)"
    and "v_type v \<noteq> None" and "v_engagement_score v \<noteq> None"
proof -
  from assms obtain vs where a: "rss_url cfg \<noteq> []" "api_key cfg \<noteq> []"
     "snd (fetch_latest_blog_post (md5 w) (parse_feed w) cache (rss_url cfg)) = Some p"
     "snd (generate_linkedin_variants (clean_html w) (backend w) (json_loads w) p)
        = Inr (Some (Objects vs))"
     "vs \<noteq> []" "snd (select_best_variant vs) = Inr (Some v)"
    by (auto simp: reaches_step4_def)
  from select_some_snd[OF a(6)] show "v_type v \<noteq> None" and "v_engagement_score v \<noteq> None"
    by simp_all
  have "list_all (\<lambda>e. \<not> is_browser e \<and> \<not> is_store_write e)
      ([Log Rule_line, Log Starting_line, Log Rule_line]
              @ Log Step1 # fst (fetch_latest_blog_post (md5 w) (parse_feed w) cache (rss_url cfg))
              @ Log Step2 # fst (generate_linkedin_variants (clean_html w) (backend w) (json_loads w) p)
              @ Log Step3 # fst (select_best_variant vs))"
    by (simp add: fetch_events generate_events select_events)
  with main_reaches_step4[OF a] show "\<exists>pre. list_all (\<lambda>e. \<not> is_browser e \<and> \<not> is_store_write e) pre
           \<and> main cfg w cache = after pre (post_and_save cfg w cache p v)"
    by blast
qed

lemma main_cases:
  "(cache_file (main cfg w cache) = cache
      \<and> list_all (\<lambda>e. \<not> is_browser e \<and> \<not> is_store_write e) (events (main cfg w cache))
      \<and> (\<forall>p v. outcome (main cfg w cache) \<noteq> Automation_complete p v
               \<and> outcome (main cfg w cache) \<noteq> Posting_failed p v))
   \<or> (\<exists>p v. reaches_step4 cfg w cache p v)"
  using main_dichotomy[of cfg w cache] unfolding reaches_step4_def by blast

lemma reaches_step4_unique:
  "reaches_step4 cfg w cache p v \<Longrightarrow> reaches_step4 cfg w cache p' v' \<Longrightarrow> p' = p \<and> v' = v"
  by (auto simp: reaches_step4_def)

lemma main_complete_iff:
  "outcome (main cfg w cache) = Automation_complete p v \<longleftrightarrow>
     reaches_step4 cfg w cache p v
     \<and> (\<exists>c hs. v_caption v = Some c \<and> v_hashtags v = Some hs
           \<and> snd (post_to_linkedin cfg (chrome w) c hs (pd_link p)))"
proof
  assume o: "outcome (main cfg w cache) = Automation_complete p v"
  with main_cases[of cfg w cache] obtain p' v' where r: "reaches_step4 cfg w cache p' v'"
    by auto
  from reaches_step4_main(1)[OF r] o have
    "outcome (post_and_save cfg w cache p' v') = Automation_complete p v"
    by (auto simp: after_simps)
  with r show "reaches_step4 cfg w cache p v
     \<and> (\<exists>c hs. v_caption v = Some c \<and> v_hashtags v = Some hs
           \<and> snd (post_to_linkedin cfg (chrome w) c hs (pd_link p)))"
    by (auto simp: post_and_save_outcome)
next
  assume a: "reaches_step4 cfg w cache p v
     \<and> (\<exists>c hs. v_caption v = Some c \<and> v_hashtags v = Some hs
           \<and> snd (post_to_linkedin cfg (chrome w) c hs (pd_link p)))"
  then have r: "reaches_step4 cfg w cache p v" by simp
  from reaches_step4_main[OF r] a show "outcome (main cfg w cache) = Automation_complete p v"
    by (auto simp: after_simps post_and_save_outcome)
qed

lemma main_failed_iff:
  "outcome (main cfg w cache) = Posting_failed p v \<longleftrightarrow>
     reaches_step4 cfg w cache p v
     \<and> (\<exists>c hs. v_caption v = Some c \<and> v_hashtags v = Some hs
           \<and> \<not> snd (post_to_linkedin cfg (chrome w) c hs (pd_link p)))"
proof
  assume o: "outcome (main cfg w cache) = Posting_failed p v"
  with main_cases[of cfg w cache] obtain p' v' where r: "reaches_step4 cfg w cache p' v'"
    by auto
  from reaches_step4_main(1)[OF r] o have
    "outcome (post_and_save cfg w cache p' v') = Posting_failed p v"
    by (auto simp: after_simps)
  with r show "reaches_step4 cfg w cache p v
     \<and> (\<exists>c hs. v_caption v = Some c \<and> v_hashtags v = Some hs
           \<and> \<not> snd (post_to_linkedin cfg (chrome w) c hs (pd_link p)))"
    by (auto simp: post_and_save_failed)
next
  assume a: "reaches_step4 cfg w cache p v
     \<and> (\<exists>c hs. v_caption v = Some c \<and> v_hashtags v = Some hs
           \<and> \<not> snd (post_to_linkedin cfg (chrome w) c hs (pd_link p)))"
  then have r: "reaches_step4 cfg w cache p v" by simp
  from reaches_step4_main[OF r] a show "outcome (main cfg w cache) = Posting_failed p v"
    by (auto simp: after_simps post_and_save_failed)
qed

lemma main_cache_file:
  "cache_file (main cfg w cache) =
     (case outcome (main cfg w cache) of
        Automation_complete p v \<Rightarrow>
          save_posted_article (md5 w) (now w) (pd_link p)
             [''title'' \<mapsto> pd_title p, ''variant_used'' \<mapsto> the (v_type v)] cache
      | _ \<Rightarrow> cache)"
proof -
  from main_cases[of cfg w cache] show ?thesis
  proof
    assume "cache_file (main cfg w cache) = cache
      \<and> list_all (\<lambda>e. \<not> is_browser e \<and> \<not> is_store_write e) (events (main cfg w cache))
      \<and> (\<forall>p v. outcome (main cfg w cache) \<noteq> Automation_complete p v
               \<and> outcome (main cfg w cache) \<noteq> Posting_failed p v)"
    then show ?thesis by (auto split: outcome.splits)
  next
    assume "\<exists>p v. reaches_step4 cfg w cache p v"
    then obtain p v where r: "reaches_step4 cfg w cache p v" by blast
    from reaches_step4_main[OF r] obtain pre where
      m: "main cfg w cache = after pre (post_and_save cfg w cache p v)"
      and t: "v_type v \<noteq> None" "v_engagement_score v \<noteq> None" by blast
    show ?thesis
    proof (cases "\<exists>p' v'. outcome (post_and_save cfg w cache p v) = Automation_complete p' v'")
      case True
      then have o: "outcome (post_and_save cfg w cache p v) = Automation_complete p v"
        by (auto simp: post_and_save_outcome)
      with True show ?thesis
        unfolding m after_simps post_and_save_cache[OF t] by simp
    next
      case False
      then show ?thesis
        unfolding m after_simps post_and_save_cache[OF t] by (auto split: outcome.splits)
    qed
  qed
qed

lemma main_store_write:
  "Store_write fp record \<in> set (events (main cfg w cache)) \<longleftrightarrow>
     (\<exists>p v. outcome (main cfg w cache) = Automation_complete p v
        \<and> fp = get_article_hash (md5 w) (pd_link p)
        \<and> record = \<lparr>pr_url = pd_link p, pr_posted_at = now w, pr_title = pd_title p,
                     pr_variant_used = the (v_type v)\<rparr>)"
proof -
  from main_cases[of cfg w cache] show ?thesis
  proof
    assume "cache_file (main cfg w cache) = cache
      \<and> list_all (\<lambda>e. \<not> is_browser e \<and> \<not> is_store_write e) (events (main cfg w cache))
      \<and> (\<forall>p v. outcome (main cfg w cache) \<noteq> Automation_complete p v
               \<and> outcome (main cfg w cache) \<noteq> Posting_failed p v)"
    then show ?thesis by (auto simp: list_all_iff)
  next
    assume "\<exists>p v. reaches_step4 cfg w cache p v"
    then obtain p v where r: "reaches_step4 cfg w cache p v" by blast
    from reaches_step4_main[OF r] obtain pre where
      q: "list_all (\<lambda>e. \<not> is_browser e \<and> \<not> is_store_write e) pre"
      and m: "main cfg w cache = after pre (post_and_save cfg w cache p v)"
      and t: "v_type v \<noteq> None" "v_engagement_score v \<noteq> None" by blast
    from q have "Store_write fp record \<notin> set pre" by (auto simp: list_all_iff)
    then show ?thesis
      unfolding m after_simps
      by (auto simp: post_and_save_store_write[OF t] post_and_save_outcome)
  qed
qed

lemma main_no_publish:
  "(\<forall>p v. outcome (main cfg w cache) \<noteq> Automation_complete p v
         \<and> outcome (main cfg w cache) \<noteq> Posting_failed p v)
   \<Longrightarrow> list_all (\<lambda>e. \<not> is_browser e) (events (main cfg w cache))"
proof -
  assume a: "\<forall>p v. outcome (main cfg w cache) \<noteq> Automation_complete p v
         \<and> outcome (main cfg w cache) \<noteq> Posting_failed p v"
  from main_cases[of cfg w cache] show ?thesis
  proof
    assume "cache_file (main cfg w cache) = cache
      \<and> list_all (\<lambda>e. \<not> is_browser e \<and> \<not> is_store_write e) (events (main cfg w cache))
      \<and> (\<forall>p v. outcome (main cfg w cache) \<noteq> Automation_complete p v
               \<and> outcome (main cfg w cache) \<noteq> Posting_failed p v)"
    then show ?thesis by (auto simp: list_all_iff)
  next
    assume "\<exists>p v. reaches_step4 cfg w cache p v"
    then obtain p v where r: "reaches_step4 cfg w cache p v" by blast
    from reaches_step4_main[OF r] obtain pre where
      q: "list_all (\<lambda>e. \<not> is_browser e \<and> \<not> is_store_write e) pre"
      and m: "main cfg w cache = after pre (post_and_save cfg w cache p v)"
      and t: "v_type v \<noteq> None" "v_engagement_score v \<noteq> None" by blast
    from a have "\<forall>p' v'. outcome (post_and_save cfg w cache p v) \<noteq> Automation_complete p' v'
         \<and> outcome (post_and_save cfg w cache p v) \<noteq> Posting_failed p' v'"
      by (simp add: m after_simps)
    with t have "events (post_and_save cfg w cache p v) = [Log Step4]"
      by (auto simp: post_and_save_def Let_def split: option.splits prod.splits if_splits)
    with q show ?thesis
      by (auto simp: m after_simps list_all_iff)
  qed
qed

section \<open>Run orchestrator\<close>

text \<open>
  Claim C1. In every run, a publication record is written to the dedup store if and only if
  the publish step reported success for the item. A store write occurs exactly in the runs
  that end at the exit after the success branch; a run ends there exactly when it arrived
  at step 4 and \<open>post_to_linkedin\<close> returned true, and at the failure exit exactly
  when it arrived at step 4 and \<open>post_to_linkedin\<close> returned false. When the publish
  step succeeded, the record (source address, time, title, style tag) is in the store under
  the item's fingerprint when the run ends. In every other run (no new entry, generation
  failure, selection failure, missing setting, publish failure, exception) the store is
  unchanged, and unless step 4 was reached the browser was never driven.
\<close>

theorem record_written_iff_publish_succeeded:
  "((\<exists>fp r. Store_write fp r \<in> set (events (main cfg w cache)))
      \<longleftrightarrow> (\<exists>q u. outcome (main cfg w cache) = Automation_complete q u))
   \<and> (outcome (main cfg w cache) = Automation_complete p v \<longleftrightarrow>
         reaches_step4 cfg w cache p v
         \<and> (\<exists>c hs. v_caption v = Some c \<and> v_hashtags v = Some hs
               \<and> snd (post_to_linkedin cfg (chrome w) c hs (pd_link p))))
   \<and> (outcome (main cfg w cache) = Posting_failed p v \<longleftrightarrow>
         reaches_step4 cfg w cache p v
         \<and> (\<exists>c hs. v_caption v = Some c \<and> v_hashtags v = Some hs
               \<and> \<not> snd (post_to_linkedin cfg (chrome w) c hs (pd_link p))))
   \<and> (outcome (main cfg w cache) = Automation_complete p v \<longrightarrow>
         (\<exists>ty. v_type v = Some ty
            \<and> cache_file (main cfg w cache) =
                Some ((load_posted_articles cache)(get_article_hash (md5 w) (pd_link p) \<mapsto>
                  \<lparr>pr_url = pd_link p, pr_posted_at = now w, pr_title = pd_title p,
                   pr_variant_used = ty\<rparr>))
            \<and> Store_write (get_article_hash (md5 w) (pd_link p))
                  \<lparr>pr_url = pd_link p, pr_posted_at = now w, pr_title = pd_title p,
                   pr_variant_used = ty\<rparr> \<in> set (events (main cfg w cache))))
   \<and> ((\<forall>q u. outcome (main cfg w cache) \<noteq> Automation_complete q u) \<longrightarrow>
         cache_file (main cfg w cache) = cache
         \<and> list_all (\<lambda>e. \<not> is_store_write e) (events (main cfg w cache)))
   \<and> ((\<forall>q u. outcome (main cfg w cache) \<noteq> Automation_complete q u
              \<and> outcome (main cfg w cache) \<noteq> Posting_failed q u) \<longrightarrow>
         list_all (\<lambda>e. \<not> is_browser e) (events (main cfg w cache)))"
proof (intro conjI)
  show "(\<exists>fp r. Store_write fp r \<in> set (events (main cfg w cache)))
      \<longleftrightarrow> (\<exists>q u. outcome (main cfg w cache) = Automation_complete q u)"
    by (auto simp: main_store_write)
  show "outcome (main cfg w cache) = Automation_complete p v \<longleftrightarrow>
         reaches_step4 cfg w cache p v
         \<and> (\<exists>c hs. v_caption v = Some c \<and> v_hashtags v = Some hs
               \<and> snd (post_to_linkedin cfg (chrome w) c hs (pd_link p)))"
    by (rule main_complete_iff)
  show "outcome (main cfg w cache) = Posting_failed p v \<longleftrightarrow>
         reaches_step4 cfg w cache p v
         \<and> (\<exists>c hs. v_caption v = Some c \<and> v_hashtags v = Some hs
               \<and> \<not> snd (post_to_linkedin cfg (chrome w) c hs (pd_link p)))"
    by (rule main_failed_iff)
  show "outcome (main cfg w cache) = Automation_complete p v \<longrightarrow>
         (\<exists>ty. v_type v = Some ty
            \<and> cache_file (main cfg w cache) =
                Some ((load_posted_articles cache)(get_article_hash (md5 w) (pd_link p) \<mapsto>
                  \<lparr>pr_url = pd_link p, pr_posted_at = now w, pr_title = pd_title p,
                   pr_variant_used = ty\<rparr>))
            \<and> Store_write (get_article_hash (md5 w) (pd_link p))
                  \<lparr>pr_url = pd_link p, pr_posted_at = now w, pr_title = pd_title p,
                   pr_variant_used = ty\<rparr> \<in> set (events (main cfg w cache)))"
  proof
    assume o: "outcome (main cfg w cache) = Automation_complete p v"
    then have "reaches_step4 cfg w cache p v" by (simp add: main_complete_iff)
    from reaches_step4_main(2)[OF this] obtain ty where ty: "v_type v = Some ty" by auto
    have c: "cache_file (main cfg w cache) =
                Some ((load_posted_articles cache)(get_article_hash (md5 w) (pd_link p) \<mapsto>
                  \<lparr>pr_url = pd_link p, pr_posted_at = now w, pr_title = pd_title p,
                   pr_variant_used = ty\<rparr>))"
      by (simp add: main_cache_file o ty save_posted_article_def dict_get_def)
    have "Store_write (get_article_hash (md5 w) (pd_link p))
                  \<lparr>pr_url = pd_link p, pr_posted_at = now w, pr_title = pd_title p,
                   pr_variant_used = ty\<rparr> \<in> set (events (main cfg w cache))"
      unfolding main_store_write using o ty by auto
    with ty c show "\<exists>ty. v_type v = Some ty
            \<and> cache_file (main cfg w cache) =
                Some ((load_posted_articles cache)(get_article_hash (md5 w) (pd_link p) \<mapsto>
                  \<lparr>pr_url = pd_link p, pr_posted_at = now w, pr_title = pd_title p,
                   pr_variant_used = ty\<rparr>))
            \<and> Store_write (get_article_hash (md5 w) (pd_link p))
                  \<lparr>pr_url = pd_link p, pr_posted_at = now w, pr_title = pd_title p,
                   pr_variant_used = ty\<rparr> \<in> set (events (main cfg w cache))"
      by blast
  qed
  show "(\<forall>q u. outcome (main cfg w cache) \<noteq> Automation_complete q u) \<longrightarrow>
         cache_file (main cfg w cache) = cache
         \<and> list_all (\<lambda>e. \<not> is_store_write e) (events (main cfg w cache))"
  proof
    assume a: "\<forall>q u. outcome (main cfg w cache) \<noteq> Automation_complete q u"
    then have "cache_file (main cfg w cache) = cache"
      by (simp add: main_cache_file split: outcome.splits)
    moreover have "list_all (\<lambda>e. \<not> is_store_write e) (events (main cfg w cache))"
      unfolding list_all_iff
    proof
      fix e assume e: "e \<in> set (events (main cfg w cache))"
      show "\<not> is_store_write e"
      proof (cases e)
        case (Store_write fp r)
        with e a show ?thesis by (simp add: main_store_write)
      qed simp_all
    qed
    ultimately show "cache_file (main cfg w cache) = cache
         \<and> list_all (\<lambda>e. \<not> is_store_write e) (events (main cfg w cache))" by simp
  qed
  show "(\<forall>q u. outcome (main cfg w cache) \<noteq> Automation_complete q u
              \<and> outcome (main cfg w cache) \<noteq> Posting_failed q u) \<longrightarrow>
         list_all (\<lambda>e. \<not> is_browser e) (events (main cfg w cache))"
    using main_no_publish[of cfg w cache] by blast
qed

theorem record_written_iff_publish_succeeded_witness:
  "(\<exists>fp r. Store_write fp r \<in> set (events (main example_config
      (example_world [example_entry ''https://blog.example/a'']
         [example_variant ''personal_story'' (Some 85)] []) None)))
   \<and> cache_file (main example_config
      (example_world [example_entry ''https://blog.example/a'']
         [example_variant ''personal_story'' (Some 85)] []) None)
     = Some [''https://blog.example/a'' \<mapsto>
         \<lparr>pr_url = ''https://blog.example/a'', pr_posted_at = ''2025-01-06T09:00:00'',
          pr_title = ''Post'', pr_variant_used = ''personal_story''\<rparr>]
   \<and> cache_file (main example_config
      (example_world [example_entry ''https://blog.example/a'']
         [example_variant ''personal_story'' (Some 85)] [Wait_present Post_box]) None) = None"
proof -
  let ?w = "example_world [example_entry ''https://blog.example/a'']
         [example_variant ''personal_story'' (Some 85)] []"
  let ?w' = "example_world [example_entry ''https://blog.example/a'']
         [example_variant ''personal_story'' (Some 85)] [Wait_present Post_box]"
  note t = record_written_iff_publish_succeeded
             [of example_config ?w None "example_post ''https://blog.example/a''"
                 "example_variant ''personal_story'' (Some 85)"]
  note t' = record_written_iff_publish_succeeded
             [of example_config ?w' None "example_post ''https://blog.example/a''"
                 "example_variant ''personal_story'' (Some 85)"]
  have o: "outcome (main example_config ?w None)
        = Automation_complete (example_post ''https://blog.example/a'')
            (example_variant ''personal_story'' (Some 85))"
    by (rule example_run_complete)
  have o': "outcome (main example_config ?w' None)
        = Posting_failed (example_post ''https://blog.example/a'')
            (example_variant ''personal_story'' (Some 85))"
    by (simp add: run_defs example_defs)
  from t o have 1: "\<exists>fp r. Store_write fp r \<in> set (events (main example_config ?w None))"
    by blast
  from t o have "\<exists>ty. v_type (example_variant ''personal_story'' (Some 85)) = Some ty
       \<and> cache_file (main example_config ?w None) =
           Some ((load_posted_articles None)
             (get_article_hash (md5 ?w) (pd_link (example_post ''https://blog.example/a'')) \<mapsto>
               \<lparr>pr_url = pd_link (example_post ''https://blog.example/a''), pr_posted_at = now ?w,
                pr_title = pd_title (example_post ''https://blog.example/a''),
                pr_variant_used = ty\<rparr>))"
    by blast
  then have 2: "cache_file (main example_config ?w None)
     = Some [''https://blog.example/a'' \<mapsto>
         \<lparr>pr_url = ''https://blog.example/a'', pr_posted_at = ''2025-01-06T09:00:00'',
          pr_title = ''Post'', pr_variant_used = ''personal_story''\<rparr>]"
    by (auto simp: example_defs load_posted_articles_def get_article_hash_def)
  from t' o' have 3: "cache_file (main example_config ?w' None) = None"
    by simp
  from 1 2 3 show ?thesis by blast
qed

subsection \<open>The driver after the main post\<close>

lemma run_script_ends_with_return:
  "snd (run_script b (pre @ [Return v])) \<noteq> None"
  by (simp add: run_script_append[of b pre] split: option.splits)

lemma rest_never_returns_false:
  "snd (run_script b (compose_steps c hs @ comment_steps url)) \<noteq> Some (Returned False)"
proof -
  define pre where "pre = compose_steps c hs @
     [Say Adding_comment, Act (Wait_present Comment_box), Act (Click Comment_box),
      Act (Send_keys Comment_box (''Read the full post: '' @ url)),
      Act (Find Comment_button), Act (Click Comment_button),
      Say Comment_posted, Say Successfully_posted]"
  have body: "compose_steps c hs @ comment_steps url = pre @ [Return True]"
    by (simp add: comment_steps_split pre_def)
  have nr: "list_all (\<lambda>s. \<not> is_return s) pre"
    by (simp add: pre_def compose_steps_def)
  have nc: "Check_login \<notin> set pre"
    by (simp add: pre_def compose_steps_def)
  from run_script_raised[OF nr nc, of b] show ?thesis
    unfolding body by (auto simp: run_script_append[of b pre] split: option.splits)
qed

lemma body_returned_false:
  assumes "snd (run_script b (login_steps cfg @ compose_steps c hs @ comment_steps url))
             = Some (Returned False)"
  shows "Log Main_post_published
           \<notin> set (fst (run_script b (login_steps cfg @ compose_steps c hs @ comment_steps url)))"
proof (cases "snd (run_script b (login_steps cfg))")
  case None
  with assms rest_never_returns_false[of b c hs url] show ?thesis
    by (simp add: run_script_append[of b "login_steps cfg"])
next
  case (Some x)
  then have "run_script b (login_steps cfg @ compose_steps c hs @ comment_steps url)
               = run_script b (login_steps cfg)"
    by (simp add: run_script_append[of b "login_steps cfg"])
  moreover have "Log Main_post_published \<notin> set (fst (run_script b (login_steps cfg)))"
    using run_script_logs[of Main_post_published b "login_steps cfg"]
    by (auto simp: login_steps_def)
  ultimately show ?thesis by simp
qed

lemma published_then_failure_logged:
  assumes "Log Main_post_published \<in> set (fst (post_to_linkedin cfg b c hs url))"
    and "\<not> snd (post_to_linkedin cfg b c hs url)"
  shows "\<exists>ex. Log (Error_posting ex) \<in> set (fst (post_to_linkedin cfg b c hs url))"
proof -
  define body where "body = run_script b (login_steps cfg @ compose_steps c hs @ comment_steps url)"
  have nn: "snd body \<noteq> None"
    unfolding body_def
    using run_script_ends_with_return[of b "login_steps cfg @ compose_steps c hs @
       [Say Adding_comment, Act (Wait_present Comment_box), Act (Click Comment_box),
      Act (Send_keys Comment_box (''Read the full post: '' @ url)),
      Act (Find Comment_button), Act (Click Comment_button),
      Say Comment_posted, Say Successfully_posted]" True]
    by (simp add: comment_steps_split)
  have rf: "Log Main_post_published \<notin> set (fst body)" if "snd body = Some (Returned False)"
    using that body_returned_false[of b cfg c hs url] by (simp add: body_def)
  from assms nn rf show ?thesis
    unfolding post_to_linkedin_def finally_quit_def body_def[symmetric]
    by (auto split: if_splits option.splits exit.splits prod.splits)
qed

lemma post_and_save_events:
  assumes "v_caption v = Some c" "v_hashtags v = Some hs"
  shows "set (fst (post_to_linkedin cfg (chrome w) c hs (pd_link p)))
           \<subseteq> set (events (post_and_save cfg w cache p v))"
    and "\<not> snd (post_to_linkedin cfg (chrome w) c hs (pd_link p))
           \<Longrightarrow> Log Posting_failed_retry \<in> set (events (post_and_save cfg w cache p v))"
  using assms by (auto simp: post_and_save_def Let_def split: option.splits prod.splits)

lemma reaches_step4_events:
  "reaches_step4 cfg w cache p v \<Longrightarrow>
     set (events (post_and_save cfg w cache p v)) \<subseteq> set (events (main cfg w cache))"
  using reaches_step4_main(1)[of cfg w cache p v] by (auto simp: after_simps)

text \<open>
  Claim C2, as amended. The publish step reports success only when every call of the comment
  step succeeded. When the driver has logged that the main post is published and a call of
  the comment step then raises, \<open>post_to_linkedin\<close> returns false: the run ends at
  the failure exit, the store is unchanged and no record is written, and the failure is
  logged with the same two lines as any other publish failure (the error line of line 383 and
  the retry line of line 450).
\<close>

theorem comment_failure_is_publish_failure:
  "(outcome (main cfg w cache) = Automation_complete p v \<longrightarrow>
      (\<forall>a. Act a \<in> set (comment_steps (pd_link p)) \<longrightarrow> raises (chrome w) a = None))
   \<and> (reaches_step4 cfg w cache p v \<and> v_caption v = Some c \<and> v_hashtags v = Some hs
        \<and> Log Main_post_published \<in> set (fst (post_to_linkedin cfg (chrome w) c hs (pd_link p)))
        \<and> (\<exists>a. Act a \<in> set (comment_steps (pd_link p)) \<and> raises (chrome w) a \<noteq> None)
      \<longrightarrow> \<not> snd (post_to_linkedin cfg (chrome w) c hs (pd_link p))
        \<and> outcome (main cfg w cache) = Posting_failed p v
        \<and> cache_file (main cfg w cache) = cache
        \<and> (\<forall>fp r. Store_write fp r \<notin> set (events (main cfg w cache)))
        \<and> (\<exists>ex. Log (Error_posting ex) \<in> set (events (main cfg w cache)))
        \<and> Log Posting_failed_retry \<in> set (events (main cfg w cache)))"
proof (intro conjI impI)
  assume "outcome (main cfg w cache) = Automation_complete p v"
  then obtain c' hs' where "snd (post_to_linkedin cfg (chrome w) c' hs' (pd_link p))"
    by (auto simp: main_complete_iff)
  then show "\<forall>a. Act a \<in> set (comment_steps (pd_link p)) \<longrightarrow> raises (chrome w) a = None"
    by (simp add: script_success)
next
  assume h: "reaches_step4 cfg w cache p v \<and> v_caption v = Some c \<and> v_hashtags v = Some hs
        \<and> Log Main_post_published \<in> set (fst (post_to_linkedin cfg (chrome w) c hs (pd_link p)))
        \<and> (\<exists>a. Act a \<in> set (comment_steps (pd_link p)) \<and> raises (chrome w) a \<noteq> None)"
  then have r: "reaches_step4 cfg w cache p v" and c: "v_caption v = Some c"
    and hs: "v_hashtags v = Some hs" by simp_all
  from h show f: "\<not> snd (post_to_linkedin cfg (chrome w) c hs (pd_link p))"
    by (auto simp: script_success)
  with r c hs show o: "outcome (main cfg w cache) = Posting_failed p v"
    by (auto simp: main_failed_iff)
  then show "cache_file (main cfg w cache) = cache"
    by (simp add: main_cache_file)
  from o show "\<forall>fp r. Store_write fp r \<notin> set (events (main cfg w cache))"
    by (simp add: main_store_write)
  from h f published_then_failure_logged[of cfg "chrome w" c hs "pd_link p"]
  obtain ex where "Log (Error_posting ex) \<in> set (fst (post_to_linkedin cfg (chrome w) c hs (pd_link p)))"
    by blast
  with post_and_save_events(1)[OF c hs, of cfg w p cache] reaches_step4_events[OF r]
  show "\<exists>ex. Log (Error_posting ex) \<in> set (events (main cfg w cache))"
    by blast
  from post_and_save_events(2)[OF c hs f, of cache] reaches_step4_events[OF r]
  show "Log Posting_failed_retry \<in> set (events (main cfg w cache))"
    by blast
qed

lemma example_reaches_step4:
  "reaches_step4 example_config
      (example_world [example_entry ''https://blog.example/a'']
         [example_variant ''personal_story'' (Some 85)] failing) None
      (example_post ''https://blog.example/a'') (example_variant ''personal_story'' (Some 85))"
  by (simp add: reaches_step4_def run_defs example_defs)

lemma example_published_then_comment_fails:
  "Log Main_post_published \<in> set (fst (post_to_linkedin example_config
       (example_browser [Wait_present Comment_box]) ''Hello'' [''AI'', ''Leadership'']
       ''https://blog.example/a''))"
  by (simp add: run_defs example_defs)

theorem comment_failure_is_publish_failure_witness:
  "outcome (main example_config
      (example_world [example_entry ''https://blog.example/a'']
         [example_variant ''personal_story'' (Some 85)] [Wait_present Comment_box]) None)
    = Posting_failed (example_post ''https://blog.example/a'')
        (example_variant ''personal_story'' (Some 85))
   \<and> cache_file (main example_config
      (example_world [example_entry ''https://blog.example/a'']
         [example_variant ''personal_story'' (Some 85)] [Wait_present Comment_box]) None) = None
   \<and> Log Posting_failed_retry \<in> set (events (main example_config
      (example_world [example_entry ''https://blog.example/a'']
         [example_variant ''personal_story'' (Some 85)] [Wait_present Comment_box]) None))"
proof -
  let ?w = "example_world [example_entry ''https://blog.example/a'']
         [example_variant ''personal_story'' (Some 85)] [Wait_present Comment_box]"
  have h: "reaches_step4 example_config ?w None (example_post ''https://blog.example/a'')
             (example_variant ''personal_story'' (Some 85))
        \<and> v_caption (example_variant ''personal_story'' (Some 85)) = Some ''Hello''
        \<and> v_hashtags (example_variant ''personal_story'' (Some 85)) = Some [''AI'', ''Leadership'']
        \<and> Log Main_post_published \<in> set (fst (post_to_linkedin example_config (chrome ?w)
             ''Hello'' [''AI'', ''Leadership''] (pd_link (example_post ''https://blog.example/a''))))
        \<and> (\<exists>a. Act a \<in> set (comment_steps (pd_link (example_post ''https://blog.example/a'')))
                \<and> raises (chrome ?w) a \<noteq> None)"
  proof (intro conjI)
    show "reaches_step4 example_config ?w None (example_post ''https://blog.example/a'')
             (example_variant ''personal_story'' (Some 85))"
      by (rule example_reaches_step4)
    show "Log Main_post_published \<in> set (fst (post_to_linkedin example_config (chrome ?w)
             ''Hello'' [''AI'', ''Leadership''] (pd_link (example_post ''https://blog.example/a''))))"
      using example_published_then_comment_fails
      by (simp add: example_world_def example_post_def)
    show "\<exists>a. Act a \<in> set (comment_steps (pd_link (example_post ''https://blog.example/a'')))
                \<and> raises (chrome ?w) a \<noteq> None"
      by (rule exI[of _ "Wait_present Comment_box"])
         (simp add: comment_steps_def example_world_def example_browser_def)
  qed (simp_all add: example_variant_def)
  from comment_failure_is_publish_failure
         [of example_config ?w None "example_post ''https://blog.example/a''"
             "example_variant ''personal_story'' (Some 85)" "''Hello''" "[''AI'', ''Leadership'']"] h
  show ?thesis by blast
qed

text \<open>
  The claim as stated fails: in this run every call up to the publish button succeeds, the
  driver logs that the main post is published, the wait for the comment box times out, and
  the run ends at the failure exit with the error line of line 383 in the log and without
  a record in the store.
\<close>

theorem comment_failure_counterexample:
  "Log Main_post_published \<in> set (events (main example_config
      (example_world [example_entry ''https://blog.example/a'']
         [example_variant ''personal_story'' (Some 85)] [Wait_present Comment_box]) None))
   \<and> outcome (main example_config
      (example_world [example_entry ''https://blog.example/a'']
         [example_variant ''personal_story'' (Some 85)] [Wait_present Comment_box]) None)
     = Posting_failed (example_post ''https://blog.example/a'')
        (example_variant ''personal_story'' (Some 85))
   \<and> cache_file (main example_config
      (example_world [example_entry ''https://blog.example/a'']
         [example_variant ''personal_story'' (Some 85)] [Wait_present Comment_box]) None) = None
   \<and> Log (Error_posting ''timeout'') \<in> set (events (main example_config
      (example_world [example_entry ''https://blog.example/a'']
         [example_variant ''personal_story'' (Some 85)] [Wait_present Comment_box]) None))"
  by (simp add: run_defs example_defs)

text \<open>
  Since that run leaves the store unchanged, the next run finds the same entry unrecorded and
  presses the publish button for it again.
\<close>

lemma comment_failure_then_second_post:
  "Browser (Click Post_button) \<in> set (events (main example_config
      (example_world [example_entry ''https://blog.example/a'']
         [example_variant ''personal_story'' (Some 85)] [Wait_present Comment_box]) None))
   \<and> Browser (Click Post_button) \<in> set (events (main example_config
      (example_world [example_entry ''https://blog.example/a'']
         [example_variant ''personal_story'' (Some 85)] []) None))"
  by (simp add: run_defs example_defs)

subsection \<open>Missing settings\<close>

lemma post_and_save_without_credentials:
  assumes "linkedin_email cfg = [] \<or> linkedin_password cfg = []"
  shows "list_all is_log (events (post_and_save cfg w cache p v))"
    and "cache_file (post_and_save cfg w cache p v) = cache"
    and "outcome (post_and_save cfg w cache p v) \<noteq> Automation_complete q u"
  using assms
  by (auto simp: post_and_save_def post_to_linkedin_def split: option.splits)

text \<open>
  Claim C6, as amended. When the feed address or the generation credential is absent, the
  run ends at startup: it only writes log lines, makes no network call and leaves the store
  unchanged. When the platform user name or the platform credential is absent, the run does
  not end at startup; the publish step returns failure before the browser is started, so
  that there is no interaction with the platform, no record is written and the store is
  unchanged.
\<close>

theorem missing_setting_stops_run:
  "(rss_url cfg = [] \<or> api_key cfg = [] \<longrightarrow>
      list_all is_log (events (main cfg w cache))
      \<and> list_all (\<lambda>e. \<not> is_network_call e) (events (main cfg w cache))
      \<and> cache_file (main cfg w cache) = cache
      \<and> (outcome (main cfg w cache) = Rss_url_not_configured
           \<or> outcome (main cfg w cache) = Api_key_not_configured))
   \<and> (linkedin_email cfg = [] \<or> linkedin_password cfg = [] \<longrightarrow>
      list_all (\<lambda>e. \<not> is_browser e) (events (main cfg w cache))
      \<and> (\<forall>fp r. Store_write fp r \<notin> set (events (main cfg w cache)))
      \<and> cache_file (main cfg w cache) = cache
      \<and> (\<forall>q u. outcome (main cfg w cache) \<noteq> Automation_complete q u))"
proof (intro conjI impI)
  assume "rss_url cfg = [] \<or> api_key cfg = []"
  then show "list_all is_log (events (main cfg w cache))"
    and "list_all (\<lambda>e. \<not> is_network_call e) (events (main cfg w cache))"
    and "cache_file (main cfg w cache) = cache"
    and "outcome (main cfg w cache) = Rss_url_not_configured
           \<or> outcome (main cfg w cache) = Api_key_not_configured"
    by (auto simp: main_def after_def)
next
  assume a: "linkedin_email cfg = [] \<or> linkedin_password cfg = []"
  have o: "outcome (main cfg w cache) \<noteq> Automation_complete q u" for q u
    using a by (auto simp: main_complete_iff script_success)
  then show "\<forall>q u. outcome (main cfg w cache) \<noteq> Automation_complete q u" by simp
  from o show "cache_file (main cfg w cache) = cache"
    by (simp add: main_cache_file split: outcome.splits)
  from o show "\<forall>fp r. Store_write fp r \<notin> set (events (main cfg w cache))"
    by (simp add: main_store_write)
  from main_cases[of cfg w cache]
  show "list_all (\<lambda>e. \<not> is_browser e) (events (main cfg w cache))"
  proof
    assume "cache_file (main cfg w cache) = cache
      \<and> list_all (\<lambda>e. \<not> is_browser e \<and> \<not> is_store_write e) (events (main cfg w cache))
      \<and> (\<forall>p v. outcome (main cfg w cache) \<noteq> Automation_complete p v
               \<and> outcome (main cfg w cache) \<noteq> Posting_failed p v)"
    then show ?thesis by (auto simp: list_all_iff)
  next
    assume "\<exists>p v. reaches_step4 cfg w cache p v"
    then obtain p v where r: "reaches_step4 cfg w cache p v" by blast
    from reaches_step4_main(1)[OF r] obtain pre where
      q: "list_all (\<lambda>e. \<not> is_browser e \<and> \<not> is_store_write e) pre"
      and m: "main cfg w cache = after pre (post_and_save cfg w cache p v)" by blast
    from post_and_save_without_credentials(1)[OF a, of w cache p v] q show ?thesis
      by (auto simp: m after_simps list_all_iff dest: is_log_quiet)
  qed
qed

theorem missing_setting_stops_run_witness:
  "list_all is_log (events (main (example_config\<lparr>api_key := []\<rparr>)
      (example_world [example_entry ''https://blog.example/a'']
         [example_variant ''personal_story'' (Some 85)] []) None))
   \<and> list_all (\<lambda>e. \<not> is_browser e) (events (main (example_config\<lparr>linkedin_password := []\<rparr>)
      (example_world [example_entry ''https://blog.example/a'']
         [example_variant ''personal_story'' (Some 85)] []) None))"
proof -
  let ?w = "example_world [example_entry ''https://blog.example/a'']
         [example_variant ''personal_story'' (Some 85)] []"
  have 1: "rss_url (example_config\<lparr>api_key := []\<rparr>) = []
             \<or> api_key (example_config\<lparr>api_key := []\<rparr>) = []"
    by simp
  have 2: "linkedin_email (example_config\<lparr>linkedin_password := []\<rparr>) = []
             \<or> linkedin_password (example_config\<lparr>linkedin_password := []\<rparr>) = []"
    by simp
  from missing_setting_stops_run[of "example_config\<lparr>api_key := []\<rparr>" ?w None] 1
       missing_setting_stops_run[of "example_config\<lparr>linkedin_password := []\<rparr>" ?w None] 2
  show ?thesis by blast
qed

text \<open>
  The claim as stated fails for the two platform settings: with the platform user name
  absent and a new entry in the feed, the run still fetches the feed and sends the
  generation request before the publish step refuses to start.
\<close>

theorem missing_setting_counterexample:
  "linkedin_email (example_config\<lparr>linkedin_email := []\<rparr>) = []
   \<and> Net_feed ''https://blog.example/rss'' \<in> set (events (main (example_config\<lparr>linkedin_email := []\<rparr>)
      (example_world [example_entry ''https://blog.example/a'']
         [example_variant ''personal_story'' (Some 85)] []) None))
   \<and> Net_generate \<in> set (events (main (example_config\<lparr>linkedin_email := []\<rparr>)
      (example_world [example_entry ''https://blog.example/a'']
         [example_variant ''personal_story'' (Some 85)] []) None))
   \<and> Log Creds_missing \<in> set (events (main (example_config\<lparr>linkedin_email := []\<rparr>)
      (example_world [example_entry ''https://blog.example/a'']
         [example_variant ''personal_story'' (Some 85)] []) None))"
  by (simp add: run_defs example_defs)

section \<open>Caption generator\<close>

lemma replace_without_first_char:
  "p \<notin> set s \<Longrightarrow> replace (p # ps) new (s @ t) = s @ replace (p # ps) new t"
  by (induction s) auto

lemma replace_fence_json_on_fence:
  "replace (fence @ ''json'') [] fence = fence"
  by (simp add: fence_def)

lemma replace_fence_on_fence: "replace fence [] fence = []"
  by (simp add: fence_def)

lemma replace_fence_json_prefix:
  "replace (fence @ ''json'') [] (fence @ ''json'' @ t) = replace (fence @ ''json'') [] t"
  by (simp add: fence_def)

lemma replace_fence_prefix: "replace fence [] (fence @ t) = replace fence [] t"
  by (simp add: fence_def)

lemma strip_leading: "is_space c \<Longrightarrow> strip (c # s) = strip s"
  by (simp add: strip_def)

lemma strip_trailing: "is_space c \<Longrightarrow> strip (s @ [c]) = strip s"
proof (cases "\<forall>x\<in>set s. is_space x")
  case True
  assume c: "is_space c"
  from True c have 1: "dropWhile is_space (s @ [c]) = []" and 2: "dropWhile is_space s = []"
    by simp_all
  show ?thesis unfolding strip_def 1 2 by simp
next
  case False
  assume "is_space c"
  with False show ?thesis
    by (auto simp: strip_def dropWhile_append dropWhile_eq_Nil_conv)
qed

lemma strip_fences_unwrapped:
  assumes "CHR 0x60 \<notin> set payload" "strip payload = payload"
  shows "strip_fences (fence @ ''json'' @ [CHR 0x0A] @ payload @ [CHR 0x0A] @ fence) = payload"
    and "strip_fences (fence @ [CHR 0x0A] @ payload @ [CHR 0x0A] @ fence) = payload"
    and "strip_fences payload = payload"
proof -
  let ?mid = "CHR 0x0A # payload @ [CHR 0x0A]"
  have nb: "CHR 0x60 \<notin> set ?mid" using assms(1) by simp
  have fj: "fence @ ''json'' = CHR 0x60 # [CHR 0x60, CHR 0x60] @ ''json''"
    and f: "fence = CHR 0x60 # [CHR 0x60, CHR 0x60]"
    by (simp_all add: fence_def)
  have a: "replace (fence @ ''json'') [] (?mid @ fence) = ?mid @ fence"
    unfolding fj using replace_without_first_char[OF nb]
    by (metis fj replace_fence_json_on_fence)
  have b: "replace fence [] (?mid @ fence) = ?mid"
    using replace_without_first_char[OF nb, of "[CHR 0x60, CHR 0x60]" "[]" fence]
    by (metis f replace_fence_on_fence append_Nil2)
  have sp: "is_space (CHR 0x0A)" by (simp add: is_space_def)
  have s: "strip ?mid = payload"
    using strip_trailing[OF sp, of "CHR 0x0A # payload"] strip_leading[OF sp, of payload] assms(2)
    by simp
  have "fence @ ''json'' @ [CHR 0x0A] @ payload @ [CHR 0x0A] @ fence = fence @ ''json'' @ (?mid @ fence)"
    by simp
  then have "replace (fence @ ''json'') [] (fence @ ''json'' @ [CHR 0x0A] @ payload @ [CHR 0x0A] @ fence)
               = ?mid @ fence"
    using replace_fence_json_prefix[of "?mid @ fence"] a by simp
  then show "strip_fences (fence @ ''json'' @ [CHR 0x0A] @ payload @ [CHR 0x0A] @ fence) = payload"
    unfolding strip_fences_def using b s by simp
  have "replace (fence @ ''json'') [] (fence @ ?mid @ fence) = fence @ ?mid @ fence"
  proof -
    have "replace (fence @ ''json'') [] (fence @ ?mid @ fence)
            = fence @ replace (fence @ ''json'') [] (?mid @ fence)"
      by (simp add: fence_def)
    with a show ?thesis by simp
  qed
  moreover have "replace fence [] (fence @ ?mid @ fence) = ?mid"
    using replace_fence_prefix[of "?mid @ fence"] b by simp
  ultimately show "strip_fences (fence @ [CHR 0x0A] @ payload @ [CHR 0x0A] @ fence) = payload"
    unfolding strip_fences_def using s by simp
  have "replace (fence @ ''json'') [] payload = payload"
    using replace_without_first_char[OF assms(1), of "[CHR 0x60, CHR 0x60] @ ''json''" "[]" "[]"]
    by (simp add: fj)
  moreover have "replace fence [] payload = payload"
    using replace_without_first_char[OF assms(1), of "[CHR 0x60, CHR 0x60]" "[]" "[]"]
    by (simp add: f)
  ultimately show "strip_fences payload = payload"
    unfolding strip_fences_def using assms(2) by simp
qed

lemma main_generation_failed:
  assumes "rss_url cfg \<noteq> []" "api_key cfg \<noteq> []"
    and "snd (fetch_latest_blog_post (md5 w) (parse_feed w) cache (rss_url cfg)) = Some p"
    and "snd (generate_linkedin_variants (clean_html w) (backend w) (json_loads w) p) = Inr None
           \<or> (\<exists>x. snd (generate_linkedin_variants (clean_html w) (backend w) (json_loads w) p)
                    = Inr (Some x) \<and> len x = 0)"
  shows "main cfg w cache =
     \<lparr>events = [Log Rule_line, Log Starting_line, Log Rule_line]
          @ Log Step1 # fst (fetch_latest_blog_post (md5 w) (parse_feed w) cache (rss_url cfg))
          @ Log Step2 # fst (generate_linkedin_variants (clean_html w) (backend w) (json_loads w) p)
          @ [Log Failed_generate],
      cache_file = cache, outcome = Failed_to_generate p\<rparr>"
proof -
  obtain e1 where 1: "fetch_latest_blog_post (md5 w) (parse_feed w) cache (rss_url cfg) = (e1, Some p)"
    using assms(3) by (metis prod.collapse)
  obtain e2 g where 2: "generate_linkedin_variants (clean_html w) (backend w) (json_loads w) p = (e2, g)"
    by (cases "generate_linkedin_variants (clean_html w) (backend w) (json_loads w) p")
  with assms(4) obtain gen where "g = Inr gen" "is_falsy gen" by auto
  with assms(1,2) show ?thesis
    by (simp add: main_def after_def 1 2)
qed

lemma main_value_without_get:
  assumes "rss_url cfg \<noteq> []" "api_key cfg \<noteq> []"
    and "snd (fetch_latest_blog_post (md5 w) (parse_feed w) cache (rss_url cfg)) = Some p"
    and "snd (generate_linkedin_variants (clean_html w) (backend w) (json_loads w) p)
           = Inr (Some (Other_value n))" "n \<noteq> 0"
  shows "main cfg w cache =
     \<lparr>events = [Log Rule_line, Log Starting_line, Log Rule_line]
          @ Log Step1 # fst (fetch_latest_blog_post (md5 w) (parse_feed w) cache (rss_url cfg))
          @ Log Step2 # fst (generate_linkedin_variants (clean_html w) (backend w) (json_loads w) p)
          @ [Log Step3],
      cache_file = cache, outcome = Uncaught p (AttributeError ''get'')\<rparr>"
proof -
  obtain e1 where 1: "fetch_latest_blog_post (md5 w) (parse_feed w) cache (rss_url cfg) = (e1, Some p)"
    using assms(3) by (metis prod.collapse)
  obtain e2 where 2: "generate_linkedin_variants (clean_html w) (backend w) (json_loads w) p
                        = (e2, Inr (Some (Other_value n)))"
    using assms(4) by (metis prod.collapse)
  from assms(1,2,5) show ?thesis
    by (simp add: main_def after_def get_or_def 1 2)
qed

text \<open>
  Claim C5, as amended. The backend's text is stripped of the code-fence markers and of
  surrounding white space before it is decoded (a payload without grave accents and without
  surrounding white space is recovered from its fenced forms). When the stripped text does
  not decode, or decodes to a document from which the entry under \<^verbatim>\<open>variants\<close> or
  its length cannot be read, or to a document whose entry is empty, the run for that item
  ends at the generation-failure exit without driving the browser and without a change to
  the dedup store. When the entry is not empty and is not a list of dictionaries, the
  selector raises AttributeError and the exception leaves the run: the browser is not
  driven and the store is unchanged, but the run does not end at the generation-failure
  exit. A non-empty list of dictionaries is returned as it is: its length, its style tags
  and the keys of its members are not examined. Whenever the generator does not return a
  non-empty list of dictionaries, the browser is not driven and the store is unchanged.
\<close>

theorem undecodable_answer_aborts_run:
  "(clean_html w (pd_content p) = Inr clean \<and> backend w (make_prompt p clean) = Api_text text
      \<and> json_loads w (strip_fences text) = None \<longrightarrow>
      generate_linkedin_variants (clean_html w) (backend w) (json_loads w) p =
        ([Log Generating, Net_generate, Log Error_parsing_json,
          Log (Response_text (take 200 (strip_fences text)))], Inr None))
   \<and> (clean_html w (pd_content p) = Inr clean \<and> backend w (make_prompt p clean) = Api_text text
      \<and> json_loads w (strip_fences text) = Some (Without_variants ex) \<longrightarrow>
      snd (generate_linkedin_variants (clean_html w) (backend w) (json_loads w) p) = Inr None)
   \<and> (clean_html w (pd_content p) = Inr clean \<and> backend w (make_prompt p clean) = Api_text text
      \<and> json_loads w (strip_fences text) = Some (With_variants x) \<longrightarrow>
      snd (generate_linkedin_variants (clean_html w) (backend w) (json_loads w) p) = Inr (Some x))
   \<and> (rss_url cfg \<noteq> [] \<and> api_key cfg \<noteq> []
        \<and> snd (fetch_latest_blog_post (md5 w) (parse_feed w) cache (rss_url cfg)) = Some p
        \<and> (snd (generate_linkedin_variants (clean_html w) (backend w) (json_loads w) p) = Inr None
             \<or> (\<exists>y. snd (generate_linkedin_variants (clean_html w) (backend w) (json_loads w) p)
                      = Inr (Some y) \<and> len y = 0)) \<longrightarrow>
      outcome (main cfg w cache) = Failed_to_generate p
      \<and> cache_file (main cfg w cache) = cache
      \<and> list_all (\<lambda>e. \<not> is_browser e \<and> \<not> is_store_write e) (events (main cfg w cache))
      \<and> Log Failed_generate \<in> set (events (main cfg w cache)))
   \<and> (rss_url cfg \<noteq> [] \<and> api_key cfg \<noteq> []
        \<and> snd (fetch_latest_blog_post (md5 w) (parse_feed w) cache (rss_url cfg)) = Some p
        \<and> snd (generate_linkedin_variants (clean_html w) (backend w) (json_loads w) p)
             = Inr (Some (Other_value n)) \<and> n \<noteq> 0 \<longrightarrow>
      outcome (main cfg w cache) = Uncaught p (AttributeError ''get'')
      \<and> cache_file (main cfg w cache) = cache
      \<and> list_all (\<lambda>e. \<not> is_browser e \<and> \<not> is_store_write e) (events (main cfg w cache)))
   \<and> (snd (fetch_latest_blog_post (md5 w) (parse_feed w) cache (rss_url cfg)) = Some p
        \<and> (\<forall>vs. snd (generate_linkedin_variants (clean_html w) (backend w) (json_loads w) p)
                    = Inr (Some (Objects vs)) \<longrightarrow> vs = []) \<longrightarrow>
      cache_file (main cfg w cache) = cache
      \<and> list_all (\<lambda>e. \<not> is_browser e \<and> \<not> is_store_write e) (events (main cfg w cache)))
   \<and> (CHR 0x60 \<notin> set payload \<and> strip payload = payload \<longrightarrow>
      strip_fences (fence @ ''json'' @ [CHR 0x0A] @ payload @ [CHR 0x0A] @ fence) = payload
      \<and> strip_fences (fence @ [CHR 0x0A] @ payload @ [CHR 0x0A] @ fence) = payload
      \<and> strip_fences payload = payload)"
proof (intro conjI impI)
  show "generate_linkedin_variants (clean_html w) (backend w) (json_loads w) p =
        ([Log Generating, Net_generate, Log Error_parsing_json,
          Log (Response_text (take 200 (strip_fences text)))], Inr None)"
    if "clean_html w (pd_content p) = Inr clean \<and> backend w (make_prompt p clean) = Api_text text
      \<and> json_loads w (strip_fences text) = None"
    using that by (simp add: generate_linkedin_variants_def)
  show "snd (generate_linkedin_variants (clean_html w) (backend w) (json_loads w) p) = Inr None"
    if "clean_html w (pd_content p) = Inr clean \<and> backend w (make_prompt p clean) = Api_text text
      \<and> json_loads w (strip_fences text) = Some (Without_variants ex)"
    using that by (simp add: generate_linkedin_variants_def)
  show "snd (generate_linkedin_variants (clean_html w) (backend w) (json_loads w) p) = Inr (Some x)"
    if "clean_html w (pd_content p) = Inr clean \<and> backend w (make_prompt p clean) = Api_text text
      \<and> json_loads w (strip_fences text) = Some (With_variants x)"
    using that by (simp add: generate_linkedin_variants_def)
next
  assume a: "rss_url cfg \<noteq> [] \<and> api_key cfg \<noteq> []
        \<and> snd (fetch_latest_blog_post (md5 w) (parse_feed w) cache (rss_url cfg)) = Some p
        \<and> (snd (generate_linkedin_variants (clean_html w) (backend w) (json_loads w) p) = Inr None
             \<or> (\<exists>y. snd (generate_linkedin_variants (clean_html w) (backend w) (json_loads w) p)
                      = Inr (Some y) \<and> len y = 0))"
  then have m: "main cfg w cache =
     \<lparr>events = [Log Rule_line, Log Starting_line, Log Rule_line]
          @ Log Step1 # fst (fetch_latest_blog_post (md5 w) (parse_feed w) cache (rss_url cfg))
          @ Log Step2 # fst (generate_linkedin_variants (clean_html w) (backend w) (json_loads w) p)
          @ [Log Failed_generate],
      cache_file = cache, outcome = Failed_to_generate p\<rparr>"
    by (intro main_generation_failed) simp_all
  show "outcome (main cfg w cache) = Failed_to_generate p"
    and "cache_file (main cfg w cache) = cache"
    and "Log Failed_generate \<in> set (events (main cfg w cache))"
    by (simp_all add: m)
  show "list_all (\<lambda>e. \<not> is_browser e \<and> \<not> is_store_write e) (events (main cfg w cache))"
    by (simp add: m fetch_events generate_events)
next
  assume a: "rss_url cfg \<noteq> [] \<and> api_key cfg \<noteq> []
        \<and> snd (fetch_latest_blog_post (md5 w) (parse_feed w) cache (rss_url cfg)) = Some p
        \<and> snd (generate_linkedin_variants (clean_html w) (backend w) (json_loads w) p)
             = Inr (Some (Other_value n)) \<and> n \<noteq> 0"
  then have m: "main cfg w cache =
     \<lparr>events = [Log Rule_line, Log Starting_line, Log Rule_line]
          @ Log Step1 # fst (fetch_latest_blog_post (md5 w) (parse_feed w) cache (rss_url cfg))
          @ Log Step2 # fst (generate_linkedin_variants (clean_html w) (backend w) (json_loads w) p)
          @ [Log Step3],
      cache_file = cache, outcome = Uncaught p (AttributeError ''get'')\<rparr>"
    by (intro main_value_without_get) auto
  show "outcome (main cfg w cache) = Uncaught p (AttributeError ''get'')"
    and "cache_file (main cfg w cache) = cache"
    by (simp_all add: m)
  show "list_all (\<lambda>e. \<not> is_browser e \<and> \<not> is_store_write e) (events (main cfg w cache))"
    by (simp add: m fetch_events generate_events)
next
  assume a: "snd (fetch_latest_blog_post (md5 w) (parse_feed w) cache (rss_url cfg)) = Some p
        \<and> (\<forall>vs. snd (generate_linkedin_variants (clean_html w) (backend w) (json_loads w) p)
                    = Inr (Some (Objects vs)) \<longrightarrow> vs = [])"
  have no: "\<not> reaches_step4 cfg w cache q v" for q v
    using a by (auto simp: reaches_step4_def)
  with main_cases[of cfg w cache]
  show "cache_file (main cfg w cache) = cache"
    and "list_all (\<lambda>e. \<not> is_browser e \<and> \<not> is_store_write e) (events (main cfg w cache))"
    by blast+
next
  assume "CHR 0x60 \<notin> set payload \<and> strip payload = payload"
  then have 1: "CHR 0x60 \<notin> set payload" and 2: "strip payload = payload" by simp_all
  show "strip_fences (fence @ ''json'' @ [CHR 0x0A] @ payload @ [CHR 0x0A] @ fence) = payload"
    by (rule strip_fences_unwrapped(1)[OF 1 2])
  show "strip_fences (fence @ [CHR 0x0A] @ payload @ [CHR 0x0A] @ fence) = payload"
    by (rule strip_fences_unwrapped(2)[OF 1 2])
  show "strip_fences payload = payload"
    by (rule strip_fences_unwrapped(3)[OF 1 2])
qed

theorem undecodable_answer_aborts_run_witness:
  "outcome (main example_config
      ((example_world [example_entry ''https://blog.example/a''] [] [])
         \<lparr>json_loads := (\<lambda>t. None)\<rparr>) None)
     = Failed_to_generate (example_post ''https://blog.example/a'')
   \<and> cache_file (main example_config
      ((example_world [example_entry ''https://blog.example/a''] [] [])
         \<lparr>json_loads := (\<lambda>t. None)\<rparr>) None) = None
   \<and> outcome (main example_config
      ((example_world [example_entry ''https://blog.example/a''] [] [])
         \<lparr>json_loads := (\<lambda>t. Some (With_variants (Other_value 1)))\<rparr>) None)
     = Uncaught (example_post ''https://blog.example/a'') (AttributeError ''get'')
   \<and> strip_fences (fence @ ''json'' @ [CHR 0x0A] @ ''{}'' @ [CHR 0x0A] @ fence) = ''{}''"
proof -
  let ?w = "(example_world [example_entry ''https://blog.example/a''] [] [])
         \<lparr>json_loads := (\<lambda>t. None)\<rparr>"
  let ?w' = "(example_world [example_entry ''https://blog.example/a''] [] [])
         \<lparr>json_loads := (\<lambda>t. Some (With_variants (Other_value 1)))\<rparr>"
  let ?G = "\<lambda>w. snd (generate_linkedin_variants (clean_html w) (backend w) (json_loads w)
                   (example_post ''https://blog.example/a''))"
  have h: "rss_url example_config \<noteq> [] \<and> api_key example_config \<noteq> []
        \<and> snd (fetch_latest_blog_post (md5 ?w) (parse_feed ?w) None (rss_url example_config))
             = Some (example_post ''https://blog.example/a'')
        \<and> (?G ?w = Inr None \<or> (\<exists>y. ?G ?w = Inr (Some y) \<and> len y = 0))"
    by (simp add: run_defs example_defs)
  have h': "rss_url example_config \<noteq> [] \<and> api_key example_config \<noteq> []
        \<and> snd (fetch_latest_blog_post (md5 ?w') (parse_feed ?w') None (rss_url example_config))
             = Some (example_post ''https://blog.example/a'')
        \<and> ?G ?w' = Inr (Some (Other_value 1)) \<and> (1::nat) \<noteq> 0"
    by (simp add: run_defs example_defs)
  have p: "CHR 0x60 \<notin> set ''{}'' \<and> strip ''{}'' = ''{}''"
    by (simp add: strip_def is_space_def)
  from undecodable_answer_aborts_run
         [where w = ?w and p = "example_post ''https://blog.example/a''" and cfg = example_config
            and cache = None and payload = "''{}''"] h p
  have 1: "outcome (main example_config ?w None) = Failed_to_generate (example_post ''https://blog.example/a'')
       \<and> cache_file (main example_config ?w None) = None
       \<and> strip_fences (fence @ ''json'' @ [CHR 0x0A] @ ''{}'' @ [CHR 0x0A] @ fence) = ''{}''"
    by blast
  from undecodable_answer_aborts_run
         [where w = ?w' and p = "example_post ''https://blog.example/a''" and cfg = example_config
            and cache = None and n = 1] h'
  have 2: "outcome (main example_config ?w' None)
             = Uncaught (example_post ''https://blog.example/a'') (AttributeError ''get'')"
    by blast
  from 1 2 show ?thesis by blast
qed

text \<open>
  The claim as stated fails: an answer that decodes to a single candidate, instead of one
  per style tag, is not treated as a generation failure. The one candidate is selected and
  published, and the dedup store is written.
\<close>

theorem undecodable_answer_counterexample:
  "snd (generate_linkedin_variants
          (clean_html (example_world [example_entry ''https://blog.example/a'']
             [example_variant ''personal_story'' (Some 85)] []))
          (backend (example_world [example_entry ''https://blog.example/a'']
             [example_variant ''personal_story'' (Some 85)] []))
          (json_loads (example_world [example_entry ''https://blog.example/a'']
             [example_variant ''personal_story'' (Some 85)] []))
          (example_post ''https://blog.example/a''))
     = Inr (Some (Objects [example_variant ''personal_story'' (Some 85)]))
   \<and> length [example_variant ''personal_story'' (Some 85)] = 1
   \<and> outcome (main example_config
        (example_world [example_entry ''https://blog.example/a'']
           [example_variant ''personal_story'' (Some 85)] []) None)
       = Automation_complete (example_post ''https://blog.example/a'')
           (example_variant ''personal_story'' (Some 85))
   \<and> cache_file (main example_config
        (example_world [example_entry ''https://blog.example/a'']
           [example_variant ''personal_story'' (Some 85)] []) None) \<noteq> None"
  by (simp add: run_defs example_defs)

text \<open>
  The two exits of the generator that are exceptions: the HTML parser raises at line 146,
  outside the \<^verbatim>\<open>try\<close>, or the body of the answer does not decode and the handler
  of line 249 reads a variable that is not assigned. Both leave the run before step 3; the
  store is unchanged and the browser is not driven, by the sixth part of the theorem above.
\<close>

lemma generator_exceptions:
  "clean_html w (pd_content p) = Inl ex \<Longrightarrow>
     generate_linkedin_variants (clean_html w) (backend w) (json_loads w) p
       = ([], Inl (Library_error ex))"
  "clean_html w (pd_content p) = Inr clean \<Longrightarrow>
   backend w (make_prompt p clean) = Api_body_undecodable \<Longrightarrow>
     generate_linkedin_variants (clean_html w) (backend w) (json_loads w) p
       = ([Log Generating, Net_generate, Log Error_parsing_json],
          Inl (UnboundLocalError ''generated_text''))"
  by (simp_all add: generate_linkedin_variants_def)

lemma main_generator_exception:
  assumes "rss_url cfg \<noteq> []" "api_key cfg \<noteq> []"
    and "snd (fetch_latest_blog_post (md5 w) (parse_feed w) cache (rss_url cfg)) = Some p"
    and "snd (generate_linkedin_variants (clean_html w) (backend w) (json_loads w) p) = Inl err"
  shows "outcome (main cfg w cache) = Uncaught p err"
    and "cache_file (main cfg w cache) = cache"
proof -
  obtain e1 where 1: "fetch_latest_blog_post (md5 w) (parse_feed w) cache (rss_url cfg) = (e1, Some p)"
    using assms(3) by (metis prod.collapse)
  obtain e2 where 2: "generate_linkedin_variants (clean_html w) (backend w) (json_loads w) p
                        = (e2, Inl err)"
    using assms(4) by (metis prod.collapse)
  from assms(1,2) show "outcome (main cfg w cache) = Uncaught p err"
    and "cache_file (main cfg w cache) = cache"
    by (simp_all add: main_def after_def 1 2)
qed

section \<open>Fingerprints and repeated runs\<close>

lemma main_complete_posted:
  assumes "outcome (main cfg w cache) = Automation_complete p v"
  shows "is_already_posted (md5 w) (cache_file (main cfg w cache)) url
           \<longleftrightarrow> md5 w url = md5 w (pd_link p) \<or> is_already_posted (md5 w) cache url"
  using assms by (simp add: main_cache_file is_already_posted_save)

lemma fetch_all_posted:
  assumes "pf rss = Feed es" "\<forall>e \<in> set es. is_already_posted h cache (get_or (e_link e) [])"
  shows "fetch_latest_blog_post h pf cache rss =
     ([Log Fetching_feed, Net_feed rss, Log (if es = [] then No_posts_found else No_new_posts)], None)"
  using assms by (simp add: fetch_latest_blog_post_def scan_entries_all_posted)

lemma fetch_found_snd:
  "snd (fetch_latest_blog_post h pf cache rss) = Some p \<Longrightarrow>
     \<not> is_already_posted h cache (pd_link p) \<and>
     (\<exists>es. pf rss = Feed es \<and> (\<exists>e \<in> set es. pd_link p = get_or (e_link e) []))"
  using fetch_found[of h pf cache rss "fst (fetch_latest_blog_post h pf cache rss)" p]
  by (metis prod.collapse)

text \<open>
  Claim C9. The fingerprint is a function of the item's address alone: entries with the same
  link have the same dedup status whatever their title, summary or content; the key under
  which a record is saved does not depend on the title, the style tag or the time; and once
  a run has published an item, every entry with that address, whatever its other fields, is
  found in the store and skipped by the scan of any later run. Nothing but the address and
  the digest function enters the computation, so it is the same in every process.
\<close>

theorem fingerprint_depends_on_url_only:
  "(e_link e = e_link e' \<longrightarrow>
      get_article_hash h (get_or (e_link e) []) = get_article_hash h (get_or (e_link e') [])
      \<and> is_already_posted h cache (get_or (e_link e) [])
          = is_already_posted h cache (get_or (e_link e') []))
   \<and> dom (load_posted_articles (save_posted_article h t url info cache))
       = insert (get_article_hash h url) (dom (load_posted_articles cache))
   \<and> is_already_posted h (save_posted_article h t url info cache) url
   \<and> (outcome (main cfg w cache) = Automation_complete p v \<and> get_or (e_link e) [] = pd_link p \<longrightarrow>
        is_already_posted (md5 w) (cache_file (main cfg w cache)) (get_or (e_link e) [])
        \<and> scan_entries (md5 w) (cache_file (main cfg w cache)) (e # es)
            = scan_entries (md5 w) (cache_file (main cfg w cache)) es)"
proof (intro conjI impI)
  assume "e_link e = e_link e'"
  then show "get_article_hash h (get_or (e_link e) []) = get_article_hash h (get_or (e_link e') [])"
    and "is_already_posted h cache (get_or (e_link e) [])
          = is_already_posted h cache (get_or (e_link e') [])"
    by simp_all
next
  show "dom (load_posted_articles (save_posted_article h t url info cache))
       = insert (get_article_hash h url) (dom (load_posted_articles cache))"
    by (simp add: save_posted_article_def load_posted_articles_def Let_def)
  show "is_already_posted h (save_posted_article h t url info cache) url"
    by (simp add: is_already_posted_save)
next
  assume a: "outcome (main cfg w cache) = Automation_complete p v \<and> get_or (e_link e) [] = pd_link p"
  then show 1: "is_already_posted (md5 w) (cache_file (main cfg w cache)) (get_or (e_link e) [])"
    by (simp add: main_complete_posted)
  then show "scan_entries (md5 w) (cache_file (main cfg w cache)) (e # es)
            = scan_entries (md5 w) (cache_file (main cfg w cache)) es"
    by simp
qed

theorem fingerprint_depends_on_url_only_witness:
  "is_already_posted (\<lambda>u. u) (cache_file (main example_config
      (example_world [example_entry ''https://blog.example/a'']
         [example_variant ''personal_story'' (Some 85)] []) None))
     (get_or (e_link ((example_entry ''https://blog.example/a'')
                \<lparr>e_title := Some ''Edited'', e_content := Some [Some ''New body'']\<rparr>)) [])"
proof -
  let ?w = "example_world [example_entry ''https://blog.example/a'']
         [example_variant ''personal_story'' (Some 85)] []"
  let ?e = "(example_entry ''https://blog.example/a'')
                \<lparr>e_title := Some ''Edited'', e_content := Some [Some ''New body'']\<rparr>"
  have h: "outcome (main example_config ?w None)
             = Automation_complete (example_post ''https://blog.example/a'')
                 (example_variant ''personal_story'' (Some 85))
           \<and> get_or (e_link ?e) [] = pd_link (example_post ''https://blog.example/a'')"
    using example_run_complete by (simp add: example_entry_def example_post_def get_or_def)
  have m: "md5 ?w = (\<lambda>u. u)" by (simp add: example_world_def)
  from fingerprint_depends_on_url_only
         [of ?e ?e "\<lambda>u. u" None "''''" "''''" Map.empty example_config ?w
             "example_post ''https://blog.example/a''"
             "example_variant ''personal_story'' (Some 85)" "[]"] h
  have "is_already_posted (md5 ?w) (cache_file (main example_config ?w None)) (get_or (e_link ?e) [])"
    by blast
  then show ?thesis unfolding m .
qed

text \<open>
  Claim C3. After a run that published an item and recorded its fingerprint, a second run
  over the same feed finds the fingerprint in the store: the feed scanner does not return an
  entry with that fingerprint, so the second run neither publishes the item nor writes a
  record for it; and when no other entry of the feed is unrecorded, the second run takes the
  no-action exit, makes no generation request, does not drive the browser and leaves the
  store as the first run left it. Each item is thus published at most once.
\<close>

theorem second_run_skips_recorded_item:
  "outcome (main cfg w cache) = Automation_complete p v
     \<and> md5 w' = md5 w \<and> parse_feed w' (rss_url cfg) = parse_feed w (rss_url cfg) \<longrightarrow>
   is_already_posted (md5 w) (cache_file (main cfg w cache)) (pd_link p)
   \<and> (\<forall>q. snd (fetch_latest_blog_post (md5 w') (parse_feed w') (cache_file (main cfg w cache))
                 (rss_url cfg)) = Some q
          \<longrightarrow> get_article_hash (md5 w) (pd_link q) \<noteq> get_article_hash (md5 w) (pd_link p))
   \<and> (\<forall>q u. outcome (main cfg w' (cache_file (main cfg w cache))) = Automation_complete q u
             \<or> outcome (main cfg w' (cache_file (main cfg w cache))) = Posting_failed q u
          \<longrightarrow> get_article_hash (md5 w) (pd_link q) \<noteq> get_article_hash (md5 w) (pd_link p))
   \<and> (\<forall>r. Store_write (get_article_hash (md5 w) (pd_link p)) r
             \<notin> set (events (main cfg w' (cache_file (main cfg w cache)))))
   \<and> ((\<forall>es. parse_feed w (rss_url cfg) = Feed es \<longrightarrow>
          (\<forall>e \<in> set es. get_article_hash (md5 w) (get_or (e_link e) [])
                            = get_article_hash (md5 w) (pd_link p)
                         \<or> is_already_posted (md5 w) cache (get_or (e_link e) []))) \<longrightarrow>
        outcome (main cfg w' (cache_file (main cfg w cache))) = No_action_needed
        \<and> cache_file (main cfg w' (cache_file (main cfg w cache))) = cache_file (main cfg w cache)
        \<and> list_all (\<lambda>e. e \<noteq> Net_generate \<and> \<not> is_browser e \<and> \<not> is_store_write e)
             (events (main cfg w' (cache_file (main cfg w cache)))))"
proof (intro impI)
  assume a: "outcome (main cfg w cache) = Automation_complete p v
     \<and> md5 w' = md5 w \<and> parse_feed w' (rss_url cfg) = parse_feed w (rss_url cfg)"
  then have o: "outcome (main cfg w cache) = Automation_complete p v"
    and h: "md5 w' = md5 w" and pf: "parse_feed w' (rss_url cfg) = parse_feed w (rss_url cfg)"
    by simp_all
  define cache1 where "cache1 = cache_file (main cfg w cache)"
  have posted: "is_already_posted (md5 w) cache1 url
           \<longleftrightarrow> md5 w url = md5 w (pd_link p) \<or> is_already_posted (md5 w) cache url" for url
    unfolding cache1_def by (rule main_complete_posted[OF o])
  from o have r1: "reaches_step4 cfg w cache p v" by (simp add: main_complete_iff)
  then have cfg: "rss_url cfg \<noteq> []" "api_key cfg \<noteq> []"
    and f1: "snd (fetch_latest_blog_post (md5 w) (parse_feed w) cache (rss_url cfg)) = Some p"
    by (simp_all add: reaches_step4_def)
  have 1: "is_already_posted (md5 w) cache1 (pd_link p)"
    by (simp add: posted)
  have 2: "get_article_hash (md5 w) (pd_link q) \<noteq> get_article_hash (md5 w) (pd_link p)"
    if "snd (fetch_latest_blog_post (md5 w') (parse_feed w') cache1 (rss_url cfg)) = Some q" for q
  proof -
    from fetch_found_snd[OF that] have "\<not> is_already_posted (md5 w) cache1 (pd_link q)"
      by (simp add: h)
    then show ?thesis by (auto simp: posted get_article_hash_def)
  qed
  have 3: "get_article_hash (md5 w) (pd_link q) \<noteq> get_article_hash (md5 w) (pd_link p)"
    if "outcome (main cfg w' cache1) = Automation_complete q u
          \<or> outcome (main cfg w' cache1) = Posting_failed q u" for q u
  proof -
    from that have "reaches_step4 cfg w' cache1 q u"
      by (auto simp: main_complete_iff main_failed_iff)
    then have "snd (fetch_latest_blog_post (md5 w') (parse_feed w') cache1 (rss_url cfg)) = Some q"
      by (simp add: reaches_step4_def)
    then show ?thesis by (rule 2)
  qed
  have 4: "Store_write (get_article_hash (md5 w) (pd_link p)) r \<notin> set (events (main cfg w' cache1))"
    for r
  proof
    assume "Store_write (get_article_hash (md5 w) (pd_link p)) r \<in> set (events (main cfg w' cache1))"
    then obtain q u where "outcome (main cfg w' cache1) = Automation_complete q u"
      and "get_article_hash (md5 w) (pd_link p) = get_article_hash (md5 w') (pd_link q)"
      by (auto simp: main_store_write)
    with 3[of q u] h show False by simp
  qed
  have 5: "outcome (main cfg w' cache1) = No_action_needed
        \<and> cache_file (main cfg w' cache1) = cache1
        \<and> list_all (\<lambda>e. e \<noteq> Net_generate \<and> \<not> is_browser e \<and> \<not> is_store_write e)
             (events (main cfg w' cache1))"
    if all: "\<forall>es. parse_feed w (rss_url cfg) = Feed es \<longrightarrow>
          (\<forall>e \<in> set es. get_article_hash (md5 w) (get_or (e_link e) [])
                            = get_article_hash (md5 w) (pd_link p)
                         \<or> is_already_posted (md5 w) cache (get_or (e_link e) []))"
  proof -
    from fetch_found_snd[OF f1] obtain es where es: "parse_feed w (rss_url cfg) = Feed es"
      by blast
    with all have "\<forall>e \<in> set es. is_already_posted (md5 w') cache1 (get_or (e_link e) [])"
      by (auto simp: h posted get_article_hash_def)
    from fetch_all_posted[OF _ this, of "parse_feed w'" "rss_url cfg"] es pf
    have "fetch_latest_blog_post (md5 w') (parse_feed w') cache1 (rss_url cfg) =
       ([Log Fetching_feed, Net_feed (rss_url cfg),
         Log (if es = [] then No_posts_found else No_new_posts)], None)"
      by simp
    with cfg show ?thesis
      by (simp add: main_def after_def)
  qed
  from 1 2 3 4 5 show
    "is_already_posted (md5 w) (cache_file (main cfg w cache)) (pd_link p)
   \<and> (\<forall>q. snd (fetch_latest_blog_post (md5 w') (parse_feed w') (cache_file (main cfg w cache))
                 (rss_url cfg)) = Some q
          \<longrightarrow> get_article_hash (md5 w) (pd_link q) \<noteq> get_article_hash (md5 w) (pd_link p))
   \<and> (\<forall>q u. outcome (main cfg w' (cache_file (main cfg w cache))) = Automation_complete q u
             \<or> outcome (main cfg w' (cache_file (main cfg w cache))) = Posting_failed q u
          \<longrightarrow> get_article_hash (md5 w) (pd_link q) \<noteq> get_article_hash (md5 w) (pd_link p))
   \<and> (\<forall>r. Store_write (get_article_hash (md5 w) (pd_link p)) r
             \<notin> set (events (main cfg w' (cache_file (main cfg w cache)))))
   \<and> ((\<forall>es. parse_feed w (rss_url cfg) = Feed es \<longrightarrow>
          (\<forall>e \<in> set es. get_article_hash (md5 w) (get_or (e_link e) [])
                            = get_article_hash (md5 w) (pd_link p)
                         \<or> is_already_posted (md5 w) cache (get_or (e_link e) []))) \<longrightarrow>
        outcome (main cfg w' (cache_file (main cfg w cache))) = No_action_needed
        \<and> cache_file (main cfg w' (cache_file (main cfg w cache))) = cache_file (main cfg w cache)
        \<and> list_all (\<lambda>e. e \<noteq> Net_generate \<and> \<not> is_browser e \<and> \<not> is_store_write e)
             (events (main cfg w' (cache_file (main cfg w cache)))))"
    unfolding cache1_def by blast
qed

theorem second_run_skips_recorded_item_witness:
  "outcome (main example_config
      (example_world [example_entry ''https://blog.example/a'']
         [example_variant ''personal_story'' (Some 85)] [])
      (cache_file (main example_config
         (example_world [example_entry ''https://blog.example/a'']
            [example_variant ''personal_story'' (Some 85)] []) None)))
     = No_action_needed
   \<and> cache_file (main example_config
      (example_world [example_entry ''https://blog.example/a'']
         [example_variant ''personal_story'' (Some 85)] [])
      (cache_file (main example_config
         (example_world [example_entry ''https://blog.example/a'']
            [example_variant ''personal_story'' (Some 85)] []) None)))
     = cache_file (main example_config
         (example_world [example_entry ''https://blog.example/a'']
            [example_variant ''personal_story'' (Some 85)] []) None)"
proof -
  let ?w = "example_world [example_entry ''https://blog.example/a'']
         [example_variant ''personal_story'' (Some 85)] []"
  have h: "outcome (main example_config ?w None)
             = Automation_complete (example_post ''https://blog.example/a'')
                 (example_variant ''personal_story'' (Some 85))
           \<and> md5 ?w = md5 ?w
           \<and> parse_feed ?w (rss_url example_config) = parse_feed ?w (rss_url example_config)"
    using example_run_complete by simp
  have all: "\<forall>es. parse_feed ?w (rss_url example_config) = Feed es \<longrightarrow>
          (\<forall>e \<in> set es. get_article_hash (md5 ?w) (get_or (e_link e) [])
                            = get_article_hash (md5 ?w) (pd_link (example_post ''https://blog.example/a''))
                         \<or> is_already_posted (md5 ?w) None (get_or (e_link e) []))"
    by (simp add: example_defs get_or_def)
  from second_run_skips_recorded_item
         [of example_config ?w None "example_post ''https://blog.example/a''"
             "example_variant ''personal_story'' (Some 85)" ?w] h all
  show ?thesis by blast
qed

text \<open>
  The scenario of the specification with two unrecorded entries, the newer one first: the
  first run publishes and records the newer entry, the second run the older one, and the
  third run takes the no-action exit.
\<close>

lemma two_entries_first_run:
  "main example_config
      (example_world [example_entry ''https://blog.example/b'', example_entry ''https://blog.example/a'']
         [example_variant ''personal_story'' (Some 85)] []) None
    = r \<Longrightarrow>
   outcome r = Automation_complete (example_post ''https://blog.example/b'')
                 (example_variant ''personal_story'' (Some 85))
   \<and> cache_file r = Some [''https://blog.example/b'' \<mapsto>
         \<lparr>pr_url = ''https://blog.example/b'', pr_posted_at = ''2025-01-06T09:00:00'',
          pr_title = ''Post'', pr_variant_used = ''personal_story''\<rparr>]"
  by (auto simp: run_defs example_defs)

lemma two_entries_second_run:
  "main example_config
      (example_world [example_entry ''https://blog.example/b'', example_entry ''https://blog.example/a'']
         [example_variant ''personal_story'' (Some 85)] [])
      (Some [''https://blog.example/b'' \<mapsto>
         \<lparr>pr_url = ''https://blog.example/b'', pr_posted_at = ''2025-01-06T09:00:00'',
          pr_title = ''Post'', pr_variant_used = ''personal_story''\<rparr>])
    = r \<Longrightarrow>
   outcome r = Automation_complete (example_post ''https://blog.example/a'')
                 (example_variant ''personal_story'' (Some 85))
   \<and> cache_file r = Some [''https://blog.example/b'' \<mapsto>
         \<lparr>pr_url = ''https://blog.example/b'', pr_posted_at = ''2025-01-06T09:00:00'',
          pr_title = ''Post'', pr_variant_used = ''personal_story''\<rparr>,
         ''https://blog.example/a'' \<mapsto>
         \<lparr>pr_url = ''https://blog.example/a'', pr_posted_at = ''2025-01-06T09:00:00'',
          pr_title = ''Post'', pr_variant_used = ''personal_story''\<rparr>]"
  by (auto simp: run_defs example_defs)

lemma two_entries_third_run:
  "main example_config
      (example_world [example_entry ''https://blog.example/b'', example_entry ''https://blog.example/a'']
         [example_variant ''personal_story'' (Some 85)] [])
      (Some [''https://blog.example/b'' \<mapsto>
         \<lparr>pr_url = ''https://blog.example/b'', pr_posted_at = ''2025-01-06T09:00:00'',
          pr_title = ''Post'', pr_variant_used = ''personal_story''\<rparr>,
         ''https://blog.example/a'' \<mapsto>
         \<lparr>pr_url = ''https://blog.example/a'', pr_posted_at = ''2025-01-06T09:00:00'',
          pr_title = ''Post'', pr_variant_used = ''personal_story''\<rparr>])
    = r \<Longrightarrow>
   outcome r = No_action_needed \<and> cache_file r = Some [''https://blog.example/b'' \<mapsto>
         \<lparr>pr_url = ''https://blog.example/b'', pr_posted_at = ''2025-01-06T09:00:00'',
          pr_title = ''Post'', pr_variant_used = ''personal_story''\<rparr>,
         ''https://blog.example/a'' \<mapsto>
         \<lparr>pr_url = ''https://blog.example/a'', pr_posted_at = ''2025-01-06T09:00:00'',
          pr_title = ''Post'', pr_variant_used = ''personal_story''\<rparr>]"
  by (auto simp: run_defs example_defs)

end
